theory Spec2Isabelle
  imports Main "HOL-Library.Word"
begin

section \<open>The tc flower rule parser of libkefir\<close>

text \<open>
  This theory embeds \<^verbatim>\<open>src/libkefir_parse_tc.c\<close> and the data model of
  \<^verbatim>\<open>src/libkefir_internals.h\<close>. A rule is parsed from a token array
  \<^verbatim>\<open>protocol {ip|ipv4|ipv6} [flower] <keyword value>* action {pass|drop}\<close>.
\<close>

subsection \<open>Data model\<close>

text \<open>
  \<^verbatim>\<open>enum match_type\<close> of libkefir_internals.h, in declaration order, so that
  \<open>KEFIR_MATCH_TYPE_UNSPEC\<close> is the enumerator of value 0. The parser names the three
  service-VLAN kinds \<open>KEFIR_MATCH_TYPE_SVLAN_*\<close>; they come from the public header it
  includes and stand here next to the \<open>VLAN\<close> kinds of the internal header. The parser
  also writes the operator and the action codes with the prefix \<open>KEFIR_\<close>
  (\<^verbatim>\<open>KEFIR_OPER_EQUAL\<close>, \<^verbatim>\<open>KEFIR_ACTION_CODE_PASS\<close>); the two enumerations below carry
  the names of the internal header.
\<close>

datatype (plugins only: code) match_type =
    KEFIR_MATCH_TYPE_UNSPEC
  | KEFIR_MATCH_TYPE_ETHER_SRC
  | KEFIR_MATCH_TYPE_ETHER_DST
  | KEFIR_MATCH_TYPE_ETHER_ANY
  | KEFIR_MATCH_TYPE_ETHER_PROTO
  | KEFIR_MATCH_TYPE_IP_4_SRC
  | KEFIR_MATCH_TYPE_IP_4_DST
  | KEFIR_MATCH_TYPE_IP_4_ANY
  | KEFIR_MATCH_TYPE_IP_4_TOS
  | KEFIR_MATCH_TYPE_IP_4_TTL
  | KEFIR_MATCH_TYPE_IP_4_FLAGS
  | KEFIR_MATCH_TYPE_IP_4_L4PROTO
  | KEFIR_MATCH_TYPE_IP_4_L4DATA
  | KEFIR_MATCH_TYPE_IP_4_L4PORT_SRC
  | KEFIR_MATCH_TYPE_IP_4_L4PORT_DST
  | KEFIR_MATCH_TYPE_IP_4_L4PORT_ANY
  | KEFIR_MATCH_TYPE_IP_4_SPI
  | KEFIR_MATCH_TYPE_IP_4_TCP_FLAGS
  | KEFIR_MATCH_TYPE_IP_6_SRC
  | KEFIR_MATCH_TYPE_IP_6_DST
  | KEFIR_MATCH_TYPE_IP_6_ANY
  | KEFIR_MATCH_TYPE_IP_6_TOS
  | KEFIR_MATCH_TYPE_IP_6_TTL
  | KEFIR_MATCH_TYPE_IP_6_FLAGS
  | KEFIR_MATCH_TYPE_IP_6_L4PROTO
  | KEFIR_MATCH_TYPE_IP_6_L4DATA
  | KEFIR_MATCH_TYPE_IP_6_L4PORT_SRC
  | KEFIR_MATCH_TYPE_IP_6_L4PORT_DST
  | KEFIR_MATCH_TYPE_IP_6_L4PORT_ANY
  | KEFIR_MATCH_TYPE_IP_6_SPI
  | KEFIR_MATCH_TYPE_IP_6_TCP_FLAGS
  | KEFIR_MATCH_TYPE_IP_ANY_SRC
  | KEFIR_MATCH_TYPE_IP_ANY_DST
  | KEFIR_MATCH_TYPE_IP_ANY_ANY
  | KEFIR_MATCH_TYPE_IP_ANY_TOS
  | KEFIR_MATCH_TYPE_IP_ANY_TTL
  | KEFIR_MATCH_TYPE_IP_ANY_FLAGS
  | KEFIR_MATCH_TYPE_IP_ANY_L4PROTO
  | KEFIR_MATCH_TYPE_IP_ANY_L4DATA
  | KEFIR_MATCH_TYPE_IP_ANY_L4PORT_SRC
  | KEFIR_MATCH_TYPE_IP_ANY_L4PORT_DST
  | KEFIR_MATCH_TYPE_IP_ANY_L4PORT_ANY
  | KEFIR_MATCH_TYPE_IP_ANY_SPI
  | KEFIR_MATCH_TYPE_IP_ANY_TCP_FLAGS
  | KEFIR_MATCH_TYPE_VLAN_ID
  | KEFIR_MATCH_TYPE_VLAN_PRIO
  | KEFIR_MATCH_TYPE_VLAN_ETHERTYPE
  | KEFIR_MATCH_TYPE_SVLAN_ID
  | KEFIR_MATCH_TYPE_SVLAN_PRIO
  | KEFIR_MATCH_TYPE_SVLAN_ETHERTYPE
  | KEFIR_MATCH_TYPE_CVLAN_ID
  | KEFIR_MATCH_TYPE_CVLAN_PRIO
  | KEFIR_MATCH_TYPE_CVLAN_ETHERTYPE
  | KEFIR_MATCH_TYPE_MPLS_LABEL
  | KEFIR_MATCH_TYPE_MPLS_TC
  | KEFIR_MATCH_TYPE_MPLS_BOS
  | KEFIR_MATCH_TYPE_MPLS_TTL
  | KEFIR_MATCH_TYPE_ICMP_TYPE
  | KEFIR_MATCH_TYPE_ICMP_CODE
  | KEFIR_MATCH_TYPE_ARP_TIP
  | KEFIR_MATCH_TYPE_ARP_SIP
  | KEFIR_MATCH_TYPE_ARP_OP
  | KEFIR_MATCH_TYPE_ARP_THA
  | KEFIR_MATCH_TYPE_ARP_SHA
  | KEFIR_MATCH_TYPE_ENC_KEY_ID
  | KEFIR_MATCH_TYPE_ENC_DST_ID
  | KEFIR_MATCH_TYPE_ENC_SRC_ID
  | KEFIR_MATCH_TYPE_ENC_DST_PORT
  | KEFIR_MATCH_TYPE_ENC_TOS
  | KEFIR_MATCH_TYPE_ENC_TTL
  | KEFIR_MATCH_TYPE_GENEVE_OPTIONS

datatype comp_operator = OPER_EQUAL | OPER_LT | OPER_LEQ | OPER_GT | OPER_GEQ

datatype action_code = ACTION_CODE_DROP | ACTION_CODE_PASS

text \<open>
  \<^verbatim>\<open>enum ether_proto_type\<close>, local to libkefir_parse_tc.c: the address family that the
  protocol clause selects.
\<close>

datatype ether_proto_type =
    TCFLOWER_ETH_PROTO_UNSPEC
  | TCFLOWER_ETH_PROTO_IPV4
  | TCFLOWER_ETH_PROTO_IPV6
  | TCFLOWER_ETH_PROTO_OTHER

text \<open>
  The value of a match is a C union. The model records which member the parser handed to
  the value codec and what was stored there; \<open>value_zero\<close> is the union as the
  zero initialiser leaves it.
\<close>

datatype kefir_value =
    value_zero
  | value_eth "8 word list"
  | value_ipv6 "32 word list"
  | value_ipv4 "32 word"
  | value_u16 "16 word"
  | value_u8 "8 word"

text \<open>
  \<^verbatim>\<open>struct kefir_match\<close>. The fields \<open>value\<close> and \<open>mask\<close> carry the suffix
  \<open>_m\<close> because both names are taken in Isabelle. \<open>max_value\<close> and \<open>mask_m\<close> are
  the 16-byte arrays.
\<close>

record kefir_match =
  match_type :: match_type
  comp_operator :: comp_operator
  value_m :: kefir_value
  max_value :: "8 word list"
  mask_m :: "8 word list"
  flags :: "64 word"

text \<open>\<^verbatim>\<open>struct kefir_rule\<close>: an array of \<open>KEFIR_MAX_MATCH_PER_RULE\<close> matches and one action.\<close>

record kefir_rule =
  matches :: "kefir_match list"
  action :: action_code

definition KEFIR_MAX_MATCH_PER_RULE :: nat where
  "KEFIR_MAX_MATCH_PER_RULE = 5"

text \<open>A match slot after the initialiser \<^verbatim>\<open>{ {0} }\<close>: every field is zero.\<close>

definition zero_match :: kefir_match where
  "zero_match = \<lparr> match_type = KEFIR_MATCH_TYPE_UNSPEC, comp_operator = OPER_EQUAL,
     value_m = value_zero, max_value = replicate 16 0, mask_m = replicate 16 0, flags = 0 \<rparr>"

subsection \<open>Errors\<close>

text \<open>
  Every \<^verbatim>\<open>err_fail\<close> of the parser followed by a failing return is one error value.
  The three "bad number of arguments" messages are one kind with the place that raised
  it, and the message "unsupported protocol", which the family parser and the protocol
  number parser share, is two kinds. \<open>MalformedValue\<close> is a failing return of the value
  codec inside a match clause.
  \<open>ReadPastEnd\<close> is not an error of the program: it is the model's outcome for reading
  \<^verbatim>\<open>**argv\<close> when the pointer has left the token array.
\<close>

datatype argc_site = RuleSize | MatchValue | ActionClause

datatype error =
    BadArgumentCount argc_site
  | MissingProtocolKeyword
  | UnsupportedProtocol string
  | UnsupportedProtocolNumber string
  | UnsupportedMatchKeyword string
  | MalformedValue
  | MissingRequiredMatch
  | MissingActionKeyword
  | UnsupportedActionCode
  | AllocationFailure
  | ReadPastEnd

subsection \<open>The environment: value codec and allocator\<close>

text \<open>
  The parsers of literals live in libkefir_parse.c and are parameters here. Each returns
  \<open>None\<close> where the C function returns non-zero, and otherwise what it stores through
  its output pointer: a number, which the parser keeps at the width of the union member it
  passed, or an address. A parser that is given the mask buffer receives its current
  content and returns the content it leaves behind. \<open>calloc_rule\<close> says whether the
  allocation of the rule succeeds. The protocol numbers are those of \<^verbatim>\<open>netinet/in.h\<close>.
\<close>

record env =
  parse_uint :: "string \<Rightarrow> nat \<Rightarrow> nat option"
  parse_uint_slash_mask :: "string \<Rightarrow> nat \<Rightarrow> 8 word list \<Rightarrow> (nat \<times> 8 word list) option"
  parse_eth_addr_slash_mask :: "string \<Rightarrow> 8 word list \<Rightarrow> (8 word list \<times> 8 word list) option"
  parse_ipv4_addr_slash_mask :: "string \<Rightarrow> 8 word list \<Rightarrow> (32 word \<times> 8 word list) option"
  parse_ipv6_addr_slash_mask :: "string \<Rightarrow> 8 word list \<Rightarrow> (32 word list \<times> 8 word list) option"
  parse_check_and_store_uint :: "nat \<Rightarrow> nat \<Rightarrow> bool \<Rightarrow> nat option"
  calloc_rule :: bool

definition IPPROTO_ICMP :: nat where "IPPROTO_ICMP = 1"
definition IPPROTO_TCP :: nat where "IPPROTO_TCP = 6"
definition IPPROTO_UDP :: nat where "IPPROTO_UDP = 17"
definition IPPROTO_ICMPV6 :: nat where "IPPROTO_ICMPV6 = 58"
definition IPPROTO_SCTP :: nat where "IPPROTO_SCTP = 132"

subsection \<open>The token cursor\<close>

text \<open>
  \<^verbatim>\<open>argv\<close> points into the token array and \<^verbatim>\<open>argc\<close> is an \<^verbatim>\<open>unsigned int\<close>:
  the cursor is the list of tokens from the pointer on and a 32-bit count whose decrement
  wraps. \<open>cur\<close> is the read \<^verbatim>\<open>**argv\<close>.
\<close>

record cursor =
  argv :: "string list"
  argc :: "32 word"

definition NEXT_ARG :: "cursor \<Rightarrow> cursor" where
  "NEXT_ARG c = c\<lparr> argv := tl (argv c), argc := argc c - 1 \<rparr>"

definition cur :: "cursor \<Rightarrow> string option" where
  "cur c = (case argv c of [] \<Rightarrow> None | t # _ \<Rightarrow> Some t)"

subsection \<open>The parser\<close>

text \<open>\<^verbatim>\<open>tcflower_parse_ethproto\<close>: the family token after \<^verbatim>\<open>protocol\<close>.\<close>

definition tcflower_parse_ethproto :: "cursor \<Rightarrow> error + (cursor \<times> ether_proto_type)" where
  "tcflower_parse_ethproto c =
     (case cur c of None \<Rightarrow> Inl ReadPastEnd | Some t \<Rightarrow>
      if t = ''ip'' \<or> t = ''ipv4'' then Inr (NEXT_ARG c, TCFLOWER_ETH_PROTO_IPV4)
      else if t = ''ipv6'' then Inr (NEXT_ARG c, TCFLOWER_ETH_PROTO_IPV6)
      else Inl (UnsupportedProtocol t))"

text \<open>
  \<^verbatim>\<open>tcflower_parse_ipproto\<close>: a protocol alias or an 8-bit number. The result is the number
  stored through \<^verbatim>\<open>output\<close>.
\<close>

definition tcflower_parse_ipproto :: "env \<Rightarrow> string \<Rightarrow> error + nat" where
  "tcflower_parse_ipproto env input =
     (case (if input = ''tcp'' then parse_check_and_store_uint env IPPROTO_TCP 8 False
            else if input = ''udp'' then parse_check_and_store_uint env IPPROTO_UDP 8 False
            else if input = ''sctp'' then parse_check_and_store_uint env IPPROTO_SCTP 8 False
            else if input = ''icmp'' then parse_check_and_store_uint env IPPROTO_ICMP 8 False
            else if input = ''icmpv6'' then parse_check_and_store_uint env IPPROTO_ICMPV6 8 False
            else parse_uint env input 8)
      of None \<Rightarrow> Inl (UnsupportedProtocolNumber input)
       | Some n \<Rightarrow> Inr n)"

text \<open>
  The keyword chain of \<^verbatim>\<open>tcflower_parse_match\<close> (lines 91 to 232), in the order of the
  source. \<open>kw\<close> is the token \<^verbatim>\<open>**argv\<close> that every \<^verbatim>\<open>strcmp\<close> of the chain reads. Each
  branch advances the cursor, reads the value token and hands it to the codec with the
  union member and, for the forms with a mask, the mask buffer of the match.
\<close>

definition tcflower_parse_match_keyword ::
  "env \<Rightarrow> cursor \<Rightarrow> bool \<Rightarrow> kefir_match \<Rightarrow> string \<Rightarrow> error + (cursor \<times> kefir_match)" where
  "tcflower_parse_match_keyword env c ipv6_flow m kw =
    (if kw = ''dst_mac'' then
       (let c1 = NEXT_ARG c in
        case cur c1 of None \<Rightarrow> Inl ReadPastEnd | Some a \<Rightarrow>
        (case parse_eth_addr_slash_mask env a (mask_m m) of None \<Rightarrow> Inl MalformedValue
         | Some (v, mk) \<Rightarrow>
             Inr (c1, m\<lparr> value_m := value_eth v, mask_m := mk, match_type := KEFIR_MATCH_TYPE_ETHER_DST \<rparr>)))
     else if kw = ''src_mac'' then
       (let c1 = NEXT_ARG c in
        case cur c1 of None \<Rightarrow> Inl ReadPastEnd | Some a \<Rightarrow>
        (case parse_eth_addr_slash_mask env a (mask_m m) of None \<Rightarrow> Inl MalformedValue
         | Some (v, mk) \<Rightarrow>
             Inr (c1, m\<lparr> value_m := value_eth v, mask_m := mk, match_type := KEFIR_MATCH_TYPE_ETHER_SRC \<rparr>)))
     else if kw = ''vlan_id'' then
       (let c1 = NEXT_ARG c in
        case cur c1 of None \<Rightarrow> Inl ReadPastEnd | Some a \<Rightarrow>
        (case parse_uint env a 12 of None \<Rightarrow> Inl MalformedValue
         | Some n \<Rightarrow> Inr (c1, m\<lparr> value_m := value_u16 (of_nat n), match_type := KEFIR_MATCH_TYPE_SVLAN_ID \<rparr>)))
     else if kw = ''vlan_prio'' then
       (let c1 = NEXT_ARG c in
        case cur c1 of None \<Rightarrow> Inl ReadPastEnd | Some a \<Rightarrow>
        (case parse_uint env a 3 of None \<Rightarrow> Inl MalformedValue
         | Some n \<Rightarrow> Inr (c1, m\<lparr> value_m := value_u8 (of_nat n), match_type := KEFIR_MATCH_TYPE_SVLAN_PRIO \<rparr>)))
     else if kw = ''vlan_ethtype'' then
       (let c1 = NEXT_ARG c in
        case cur c1 of None \<Rightarrow> Inl ReadPastEnd | Some a \<Rightarrow>
        (case parse_uint env a 16 of None \<Rightarrow> Inl MalformedValue
         | Some n \<Rightarrow> Inr (c1, m\<lparr> value_m := value_u16 (of_nat n), match_type := KEFIR_MATCH_TYPE_SVLAN_ETHERTYPE \<rparr>)))
     else if kw = ''cvlan_id'' then
       (let c1 = NEXT_ARG c in
        case cur c1 of None \<Rightarrow> Inl ReadPastEnd | Some a \<Rightarrow>
        (case parse_uint env a 12 of None \<Rightarrow> Inl MalformedValue
         | Some n \<Rightarrow> Inr (c1, m\<lparr> value_m := value_u16 (of_nat n), match_type := KEFIR_MATCH_TYPE_CVLAN_ID \<rparr>)))
     else if kw = ''cvlan_prio'' then
       (let c1 = NEXT_ARG c in
        case cur c1 of None \<Rightarrow> Inl ReadPastEnd | Some a \<Rightarrow>
        (case parse_uint env a 3 of None \<Rightarrow> Inl MalformedValue
         | Some n \<Rightarrow> Inr (c1, m\<lparr> value_m := value_u8 (of_nat n), match_type := KEFIR_MATCH_TYPE_CVLAN_PRIO \<rparr>)))
     else if kw = ''cvlan_ethtype'' then
       (let c1 = NEXT_ARG c in
        case cur c1 of None \<Rightarrow> Inl ReadPastEnd | Some a \<Rightarrow>
        (case parse_uint env a 16 of None \<Rightarrow> Inl MalformedValue
         | Some n \<Rightarrow> Inr (c1, m\<lparr> value_m := value_u16 (of_nat n), match_type := KEFIR_MATCH_TYPE_CVLAN_ETHERTYPE \<rparr>)))
     else if kw = ''ip_proto'' then
       (let c1 = NEXT_ARG c in
        case cur c1 of None \<Rightarrow> Inl ReadPastEnd | Some a \<Rightarrow>
        (case tcflower_parse_ipproto env a of Inl e \<Rightarrow> Inl e
         | Inr n \<Rightarrow> Inr (c1, m\<lparr> value_m := value_u8 (of_nat n),
                match_type := (if ipv6_flow then KEFIR_MATCH_TYPE_IP_6_L4PROTO else KEFIR_MATCH_TYPE_IP_4_L4PROTO) \<rparr>)))
     else if kw = ''ip_tos'' then
       (let c1 = NEXT_ARG c in
        case cur c1 of None \<Rightarrow> Inl ReadPastEnd | Some a \<Rightarrow>
        (case parse_uint_slash_mask env a 8 (mask_m m) of None \<Rightarrow> Inl MalformedValue
         | Some (n, mk) \<Rightarrow>
             Inr (c1, m\<lparr> value_m := value_u8 (of_nat n), mask_m := mk,
                match_type := (if ipv6_flow then KEFIR_MATCH_TYPE_IP_6_TOS else KEFIR_MATCH_TYPE_IP_4_TOS) \<rparr>)))
     else if kw = ''ip_ttl'' then
       (let c1 = NEXT_ARG c in
        case cur c1 of None \<Rightarrow> Inl ReadPastEnd | Some a \<Rightarrow>
        (case parse_uint_slash_mask env a 8 (mask_m m) of None \<Rightarrow> Inl MalformedValue
         | Some (n, mk) \<Rightarrow>
             Inr (c1, m\<lparr> value_m := value_u8 (of_nat n), mask_m := mk,
                match_type := (if ipv6_flow then KEFIR_MATCH_TYPE_IP_6_TTL else KEFIR_MATCH_TYPE_IP_4_TTL) \<rparr>)))
     else if kw = ''dst_ip'' then
       (let c1 = NEXT_ARG c in
        case cur c1 of None \<Rightarrow> Inl ReadPastEnd | Some a \<Rightarrow>
        if ipv6_flow then
          (case parse_ipv6_addr_slash_mask env a (mask_m m) of None \<Rightarrow> Inl MalformedValue
           | Some (v, mk) \<Rightarrow>
               Inr (c1, m\<lparr> value_m := value_ipv6 v, mask_m := mk, match_type := KEFIR_MATCH_TYPE_IP_6_DST \<rparr>))
        else
          (case parse_ipv4_addr_slash_mask env a (mask_m m) of None \<Rightarrow> Inl MalformedValue
           | Some (v, mk) \<Rightarrow>
               Inr (c1, m\<lparr> value_m := value_ipv4 v, mask_m := mk, match_type := KEFIR_MATCH_TYPE_IP_4_DST \<rparr>)))
     else if kw = ''src_ip'' then
       (let c1 = NEXT_ARG c in
        case cur c1 of None \<Rightarrow> Inl ReadPastEnd | Some a \<Rightarrow>
        if ipv6_flow then
          (case parse_ipv6_addr_slash_mask env a (mask_m m) of None \<Rightarrow> Inl MalformedValue
           | Some (v, mk) \<Rightarrow>
               Inr (c1, m\<lparr> value_m := value_ipv6 v, mask_m := mk, match_type := KEFIR_MATCH_TYPE_IP_6_SRC \<rparr>))
        else
          (case parse_ipv4_addr_slash_mask env a (mask_m m) of None \<Rightarrow> Inl MalformedValue
           | Some (v, mk) \<Rightarrow>
               Inr (c1, m\<lparr> value_m := value_ipv4 v, mask_m := mk, match_type := KEFIR_MATCH_TYPE_IP_4_SRC \<rparr>)))
     else if kw = ''dst_port'' then
       (let c1 = NEXT_ARG c in
        case cur c1 of None \<Rightarrow> Inl ReadPastEnd | Some a \<Rightarrow>
        (case parse_uint env a 16 of None \<Rightarrow> Inl MalformedValue
         | Some n \<Rightarrow> Inr (c1, m\<lparr> value_m := value_u16 (of_nat n),
                match_type := (if ipv6_flow then KEFIR_MATCH_TYPE_IP_6_L4PORT_DST else KEFIR_MATCH_TYPE_IP_4_L4PORT_DST) \<rparr>)))
     else if kw = ''src_port'' then
       (let c1 = NEXT_ARG c in
        case cur c1 of None \<Rightarrow> Inl ReadPastEnd | Some a \<Rightarrow>
        (case parse_uint env a 16 of None \<Rightarrow> Inl MalformedValue
         | Some n \<Rightarrow> Inr (c1, m\<lparr> value_m := value_u16 (of_nat n),
                match_type := (if ipv6_flow then KEFIR_MATCH_TYPE_IP_6_L4PORT_SRC else KEFIR_MATCH_TYPE_IP_4_L4PORT_SRC) \<rparr>)))
     else Inl (UnsupportedMatchKeyword kw))"

text \<open>
  \<^verbatim>\<open>tcflower_parse_match\<close>: the count check at entry, the operator, the keyword chain, the
  last \<^verbatim>\<open>NEXT_ARG\<close> and the count check at exit.
\<close>

definition tcflower_parse_match ::
  "env \<Rightarrow> cursor \<Rightarrow> ether_proto_type \<Rightarrow> kefir_match \<Rightarrow> error + (cursor \<times> kefir_match)" where
  "tcflower_parse_match env c ethtype m =
     (let ipv6_flow = (ethtype = TCFLOWER_ETH_PROTO_IPV6) in
      if argc c < 2 then Inl (BadArgumentCount MatchValue)
      else case cur c of None \<Rightarrow> Inl ReadPastEnd | Some kw \<Rightarrow>
        (case tcflower_parse_match_keyword env c ipv6_flow (m\<lparr> comp_operator := OPER_EQUAL \<rparr>) kw of
           Inl e \<Rightarrow> Inl e
         | Inr (c1, m') \<Rightarrow>
             (let c2 = NEXT_ARG c1 in
              if argc c2 < 1 then Inl (BadArgumentCount MatchValue) else Inr (c2, m'))))"

text \<open>The two groups of case labels in the switch of \<^verbatim>\<open>tcflower_check_matchlist\<close>.\<close>

definition l4proto_label :: "match_type \<Rightarrow> bool" where
  "l4proto_label t \<longleftrightarrow>
     t = KEFIR_MATCH_TYPE_IP_4_L4PROTO \<or> t = KEFIR_MATCH_TYPE_IP_6_L4PROTO \<or>
     t = KEFIR_MATCH_TYPE_IP_ANY_L4PROTO"

definition l4port_label :: "match_type \<Rightarrow> bool" where
  "l4port_label t \<longleftrightarrow>
     t = KEFIR_MATCH_TYPE_IP_4_L4PORT_SRC \<or> t = KEFIR_MATCH_TYPE_IP_4_L4PORT_DST \<or>
     t = KEFIR_MATCH_TYPE_IP_4_L4PORT_ANY \<or>
     t = KEFIR_MATCH_TYPE_IP_6_L4PORT_SRC \<or> t = KEFIR_MATCH_TYPE_IP_6_L4PORT_DST \<or>
     t = KEFIR_MATCH_TYPE_IP_6_L4PORT_ANY \<or>
     t = KEFIR_MATCH_TYPE_IP_ANY_L4PORT_SRC \<or> t = KEFIR_MATCH_TYPE_IP_ANY_L4PORT_DST \<or>
     t = KEFIR_MATCH_TYPE_IP_ANY_L4PORT_ANY"

text \<open>
  The for loop of \<^verbatim>\<open>tcflower_check_matchlist\<close> from index \<open>i\<close> on: it returns the two
  flags \<open>(found_l4_port, found_ipproto)\<close> at the first \<open>UNSPEC\<close> slot or at the end of
  the array.
\<close>

function tcflower_check_matchlist_scan ::
  "kefir_match list \<Rightarrow> nat \<Rightarrow> bool \<Rightarrow> bool \<Rightarrow> bool \<times> bool" where
  "tcflower_check_matchlist_scan match_list i found_l4_port found_ipproto =
     (if i < KEFIR_MAX_MATCH_PER_RULE then
        (if match_type (match_list ! i) = KEFIR_MATCH_TYPE_UNSPEC then
           (found_l4_port, found_ipproto)
         else if l4proto_label (match_type (match_list ! i)) then
           tcflower_check_matchlist_scan match_list (Suc i) found_l4_port True
         else if l4port_label (match_type (match_list ! i)) then
           tcflower_check_matchlist_scan match_list (Suc i) True found_ipproto
         else tcflower_check_matchlist_scan match_list (Suc i) found_l4_port found_ipproto)
      else (found_l4_port, found_ipproto))"
  by pat_completeness auto
termination
  by (relation "measure (\<lambda>(ml, i, p, q). KEFIR_MAX_MATCH_PER_RULE - i)") auto

definition tcflower_check_matchlist :: "kefir_match list \<Rightarrow> error + unit" where
  "tcflower_check_matchlist match_list =
     (case tcflower_check_matchlist_scan match_list 0 False False of
        (found_l4_port, found_ipproto) \<Rightarrow>
          if found_l4_port \<and> \<not> found_ipproto then Inl MissingRequiredMatch else Inr ())"

text \<open>
  \<^verbatim>\<open>tcflower_parse_action\<close>. The message of the last failure prints the unset
  \<^verbatim>\<open>*action_code\<close>, not the token, so \<open>UnsupportedActionCode\<close> carries nothing.
\<close>

definition tcflower_parse_action :: "cursor \<Rightarrow> error + (cursor \<times> action_code)" where
  "tcflower_parse_action c =
     (if argc c \<noteq> 2 then Inl (BadArgumentCount ActionClause)
      else case cur c of None \<Rightarrow> Inl ReadPastEnd | Some t \<Rightarrow>
        if t \<noteq> ''action'' then Inl MissingActionKeyword
        else (let c1 = NEXT_ARG c in
              case cur c1 of None \<Rightarrow> Inl ReadPastEnd | Some a \<Rightarrow>
                if a = ''pass'' then Inr (c1, ACTION_CODE_PASS)
                else if a = ''drop'' then Inr (c1, ACTION_CODE_DROP)
                else Inl UnsupportedActionCode))"

text \<open>\<^verbatim>\<open>tcflower_compose_rule\<close>: the allocation, the copy of the whole array, the action.\<close>

definition tcflower_compose_rule :: "env \<Rightarrow> kefir_match list \<Rightarrow> action_code \<Rightarrow> error + kefir_rule" where
  "tcflower_compose_rule env ms action_code =
     (if \<not> calloc_rule env then Inl AllocationFailure
      else Inr \<lparr> matches = ms, action = action_code \<rparr>)"

text \<open>
  The while loop of \<^verbatim>\<open>tcflower_parse_rule\<close> (lines 360 to 364). \<open>ms\<close> is the local array
  \<^verbatim>\<open>matches\<close>; the slot \<^verbatim>\<open>matches[match_index++]\<close> is inside the array because the loop
  condition bounds the index.
\<close>

function tcflower_parse_rule_loop ::
  "env \<Rightarrow> ether_proto_type \<Rightarrow> cursor \<Rightarrow> kefir_match list \<Rightarrow> nat
     \<Rightarrow> error + (cursor \<times> kefir_match list \<times> nat)" where
  "tcflower_parse_rule_loop env ethtype c ms match_index =
     (if 2 < argc c \<and> match_index < KEFIR_MAX_MATCH_PER_RULE then
        (case tcflower_parse_match env c ethtype (ms ! match_index) of
           Inl e \<Rightarrow> Inl e
         | Inr (c', m') \<Rightarrow>
             tcflower_parse_rule_loop env ethtype c' (ms[match_index := m']) (Suc match_index))
      else Inr (c, ms, match_index))"
  by pat_completeness auto
termination
  by (relation "measure (\<lambda>(env, eth, c, ms, i). KEFIR_MAX_MATCH_PER_RULE - i)") auto

text \<open>
  \<^verbatim>\<open>tcflower_parse_rule\<close>. \<open>rule_size\<close> is a \<^verbatim>\<open>size_t\<close>, a natural number here; the
  assignment \<^verbatim>\<open>argc = rule_size\<close> narrows it to \<^verbatim>\<open>unsigned int\<close>, that is to 32 bits where
  \<^verbatim>\<open>size_t\<close> has 64. \<open>Inl\<close> is the \<^verbatim>\<open>NULL\<close> return with the reason, \<open>Inr\<close> the allocated
  rule. The properties below are about calls in which \<open>rule_size\<close> is the number of
  tokens of \<open>user_rule\<close>.
\<close>

definition tcflower_parse_rule :: "env \<Rightarrow> string list \<Rightarrow> nat \<Rightarrow> error + kefir_rule" where
  "tcflower_parse_rule env user_rule rule_size =
     (if rule_size < 6 then Inl (BadArgumentCount RuleSize)
      else (let c = \<lparr> argv = user_rule, argc = of_nat rule_size \<rparr> in
        case cur c of None \<Rightarrow> Inl ReadPastEnd | Some t \<Rightarrow>
        if t \<noteq> ''protocol'' then Inl MissingProtocolKeyword
        else (case tcflower_parse_ethproto (NEXT_ARG c) of Inl e \<Rightarrow> Inl e
          | Inr (c1, ethtype) \<Rightarrow>
          (case cur c1 of None \<Rightarrow> Inl ReadPastEnd | Some f \<Rightarrow>
           (let c2 = (if f = ''flower'' then NEXT_ARG c1 else c1) in
            case tcflower_parse_rule_loop env ethtype c2
                   (replicate KEFIR_MAX_MATCH_PER_RULE zero_match) 0 of
              Inl e \<Rightarrow> Inl e
            | Inr (c3, ms, match_index) \<Rightarrow>
              (case tcflower_check_matchlist ms of Inl e \<Rightarrow> Inl e
               | Inr _ \<Rightarrow>
                 (case tcflower_parse_action c3 of Inl e \<Rightarrow> Inl e
                  | Inr (c4, action_code) \<Rightarrow> tcflower_compose_rule env ms action_code)))))))"

text \<open>
  The statements of \<^verbatim>\<open>tcflower_parse_rule\<close> after the loop (lines 365 to 373) as a function
  of the outcome of the loop; the proofs use it to name this part.
\<close>

definition after_loop ::
  "env \<Rightarrow> error + (cursor \<times> kefir_match list \<times> nat) \<Rightarrow> error + kefir_rule" where
  "after_loop env res =
     (case res of Inl e \<Rightarrow> Inl e
      | Inr (c3, ms, match_index) \<Rightarrow>
          (case tcflower_check_matchlist ms of Inl e \<Rightarrow> Inl e
           | Inr _ \<Rightarrow>
             (case tcflower_parse_action c3 of Inl e \<Rightarrow> Inl e
              | Inr (c4, action_code) \<Rightarrow> tcflower_compose_rule env ms action_code)))"

subsection \<open>The grammar and the keyword table of the specification\<close>

text \<open>
  The definitions named \<open>spec_\<close> follow the words of the specification, to be compared
  with the parser. \<open>spec_family\<close> and \<open>spec_action\<close> are the two closed token sets of the
  grammar (sections 4.2 and 4.5). The other definitions of this subsection are the
  vocabulary of the statements: the tokens and the positions of the clauses of a token
  array, the matches of an array, the kinds of a family, the keywords with a mask.
\<close>

definition spec_family :: "string \<Rightarrow> ether_proto_type option" where
  "spec_family t =
     (if t = ''ip'' \<or> t = ''ipv4'' then Some TCFLOWER_ETH_PROTO_IPV4
      else if t = ''ipv6'' then Some TCFLOWER_ETH_PROTO_IPV6 else None)"

definition spec_action :: "string \<Rightarrow> action_code option" where
  "spec_action t =
     (if t = ''pass'' then Some ACTION_CODE_PASS
      else if t = ''drop'' then Some ACTION_CODE_DROP else None)"

text \<open>
  The keyword table of section 4.3: keyword, value encoding, match kind in an IPv4 rule,
  match kind in an IPv6 rule.
\<close>

datatype spec_encoding =
    enc_mac_mask
  | enc_uint nat
  | enc_ipproto
  | enc_uint_mask nat
  | enc_ipaddr_mask

definition spec_keyword_table :: "(string \<times> spec_encoding \<times> match_type \<times> match_type) list" where
  "spec_keyword_table =
    [(''dst_mac'', enc_mac_mask, KEFIR_MATCH_TYPE_ETHER_DST, KEFIR_MATCH_TYPE_ETHER_DST),
     (''src_mac'', enc_mac_mask, KEFIR_MATCH_TYPE_ETHER_SRC, KEFIR_MATCH_TYPE_ETHER_SRC),
     (''vlan_id'', enc_uint 12, KEFIR_MATCH_TYPE_SVLAN_ID, KEFIR_MATCH_TYPE_SVLAN_ID),
     (''vlan_prio'', enc_uint 3, KEFIR_MATCH_TYPE_SVLAN_PRIO, KEFIR_MATCH_TYPE_SVLAN_PRIO),
     (''vlan_ethtype'', enc_uint 16, KEFIR_MATCH_TYPE_SVLAN_ETHERTYPE,
        KEFIR_MATCH_TYPE_SVLAN_ETHERTYPE),
     (''cvlan_id'', enc_uint 12, KEFIR_MATCH_TYPE_CVLAN_ID, KEFIR_MATCH_TYPE_CVLAN_ID),
     (''cvlan_prio'', enc_uint 3, KEFIR_MATCH_TYPE_CVLAN_PRIO, KEFIR_MATCH_TYPE_CVLAN_PRIO),
     (''cvlan_ethtype'', enc_uint 16, KEFIR_MATCH_TYPE_CVLAN_ETHERTYPE,
        KEFIR_MATCH_TYPE_CVLAN_ETHERTYPE),
     (''ip_proto'', enc_ipproto, KEFIR_MATCH_TYPE_IP_4_L4PROTO, KEFIR_MATCH_TYPE_IP_6_L4PROTO),
     (''ip_tos'', enc_uint_mask 8, KEFIR_MATCH_TYPE_IP_4_TOS, KEFIR_MATCH_TYPE_IP_6_TOS),
     (''ip_ttl'', enc_uint_mask 8, KEFIR_MATCH_TYPE_IP_4_TTL, KEFIR_MATCH_TYPE_IP_6_TTL),
     (''dst_ip'', enc_ipaddr_mask, KEFIR_MATCH_TYPE_IP_4_DST, KEFIR_MATCH_TYPE_IP_6_DST),
     (''src_ip'', enc_ipaddr_mask, KEFIR_MATCH_TYPE_IP_4_SRC, KEFIR_MATCH_TYPE_IP_6_SRC),
     (''dst_port'', enc_uint 16, KEFIR_MATCH_TYPE_IP_4_L4PORT_DST,
        KEFIR_MATCH_TYPE_IP_6_L4PORT_DST),
     (''src_port'', enc_uint 16, KEFIR_MATCH_TYPE_IP_4_L4PORT_SRC,
        KEFIR_MATCH_TYPE_IP_6_L4PORT_SRC)]"

text \<open>The protocol aliases of section 4.3 with their standard numbers.\<close>

definition spec_ipproto_alias :: "string \<Rightarrow> nat option" where
  "spec_ipproto_alias a =
     map_of [(''tcp'', 6), (''udp'', 17), (''sctp'', 132), (''icmp'', 1), (''icmpv6'', 58)] a"

text \<open>An unsigned number of at most 8 bits is an 8-bit value, a wider one a 16-bit value.\<close>

definition spec_store_uint :: "nat \<Rightarrow> nat \<Rightarrow> kefir_value" where
  "spec_store_uint nb_bits n = (if nb_bits \<le> 8 then value_u8 (of_nat n) else value_u16 (of_nat n))"

text \<open>
  The value and the mask buffer that one encoding leaves for the literal \<open>a\<close>, given the
  mask buffer \<open>mk\<close> before; the encodings without a mask do not touch the buffer.
\<close>

definition spec_encode ::
  "env \<Rightarrow> bool \<Rightarrow> spec_encoding \<Rightarrow> string \<Rightarrow> 8 word list \<Rightarrow> error + (kefir_value \<times> 8 word list)" where
  "spec_encode env ipv6 enc a mk =
     (case enc of
        enc_mac_mask \<Rightarrow>
          (case parse_eth_addr_slash_mask env a mk of None \<Rightarrow> Inl MalformedValue
           | Some (v, mk') \<Rightarrow> Inr (value_eth v, mk'))
      | enc_uint b \<Rightarrow>
          (case parse_uint env a b of None \<Rightarrow> Inl MalformedValue
           | Some n \<Rightarrow> Inr (spec_store_uint b n, mk))
      | enc_ipproto \<Rightarrow>
          (case (case spec_ipproto_alias a of
                   Some p \<Rightarrow> parse_check_and_store_uint env p 8 False
                 | None \<Rightarrow> parse_uint env a 8) of
             None \<Rightarrow> Inl (UnsupportedProtocolNumber a)
           | Some n \<Rightarrow> Inr (value_u8 (of_nat n), mk))
      | enc_uint_mask b \<Rightarrow>
          (case parse_uint_slash_mask env a b mk of None \<Rightarrow> Inl MalformedValue
           | Some (n, mk') \<Rightarrow> Inr (spec_store_uint b n, mk'))
      | enc_ipaddr_mask \<Rightarrow>
          (if ipv6 then
             (case parse_ipv6_addr_slash_mask env a mk of None \<Rightarrow> Inl MalformedValue
              | Some (v, mk') \<Rightarrow> Inr (value_ipv6 v, mk'))
           else
             (case parse_ipv4_addr_slash_mask env a mk of None \<Rightarrow> Inl MalformedValue
              | Some (v, mk') \<Rightarrow> Inr (value_ipv4 v, mk'))))"

text \<open>
  The match that the clause \<open>kw a\<close> produces in the slot \<open>m\<close>: kind by the table and the
  family, operator equal, value and mask by the encoding; the upper bound and the flags
  of the slot stay.
\<close>

definition spec_clause ::
  "env \<Rightarrow> bool \<Rightarrow> string \<Rightarrow> string \<Rightarrow> kefir_match \<Rightarrow> error + kefir_match" where
  "spec_clause env ipv6 kw a m =
     (case map_of spec_keyword_table kw of
        None \<Rightarrow> Inl (UnsupportedMatchKeyword kw)
      | Some (enc, t4, t6) \<Rightarrow>
          (case spec_encode env ipv6 enc a (mask_m m) of
             Inl e \<Rightarrow> Inl e
           | Inr (v, mk) \<Rightarrow>
               Inr \<lparr> match_type = (if ipv6 then t6 else t4), comp_operator = OPER_EQUAL,
                     value_m = v, max_value = max_value m, mask_m = mk, flags = flags m \<rparr>))"

text \<open>The tokens of a list of clauses, in order.\<close>

definition clause_tokens :: "(string \<times> string) list \<Rightarrow> string list" where
  "clause_tokens cls = concat (map (\<lambda>(kw, a). [kw, a]) cls)"

text \<open>
  The clauses of a token array by position: they start after \<open>protocol\<close>, the family and
  the optional \<open>flower\<close>, and the clause \<open>i\<close> is the keyword \<open>keyword_at toks i\<close> followed
  by the value \<open>value_at toks i\<close>.
\<close>

definition clause_offset :: "string list \<Rightarrow> nat" where
  "clause_offset toks = (if toks ! 2 = ''flower'' then 3 else 2)"

definition keyword_at :: "string list \<Rightarrow> nat \<Rightarrow> string" where
  "keyword_at toks i = toks ! (clause_offset toks + 2 * i)"

definition value_at :: "string list \<Rightarrow> nat \<Rightarrow> string" where
  "value_at toks i = toks ! (clause_offset toks + 2 * i + 1)"

text \<open>
  The matches of an array: the slots up to the first \<open>UNSPEC\<close> slot, which ends the list
  (section 3 of the specification).
\<close>

definition matches_upto_unspec :: "kefir_match list \<Rightarrow> kefir_match list" where
  "matches_upto_unspec ms =
     takeWhile (\<lambda>m. match_type m \<noteq> KEFIR_MATCH_TYPE_UNSPEC) (take KEFIR_MAX_MATCH_PER_RULE ms)"

text \<open>The match kinds of the two address families: the \<open>IP_4\<close> and the \<open>IP_6\<close> enumerators.\<close>

definition ipv4_kind :: "match_type \<Rightarrow> bool" where
  "ipv4_kind t \<longleftrightarrow> t \<in> {KEFIR_MATCH_TYPE_IP_4_SRC, KEFIR_MATCH_TYPE_IP_4_DST,
     KEFIR_MATCH_TYPE_IP_4_ANY, KEFIR_MATCH_TYPE_IP_4_TOS, KEFIR_MATCH_TYPE_IP_4_TTL,
     KEFIR_MATCH_TYPE_IP_4_FLAGS, KEFIR_MATCH_TYPE_IP_4_L4PROTO, KEFIR_MATCH_TYPE_IP_4_L4DATA,
     KEFIR_MATCH_TYPE_IP_4_L4PORT_SRC, KEFIR_MATCH_TYPE_IP_4_L4PORT_DST,
     KEFIR_MATCH_TYPE_IP_4_L4PORT_ANY, KEFIR_MATCH_TYPE_IP_4_SPI,
     KEFIR_MATCH_TYPE_IP_4_TCP_FLAGS}"

definition ipv6_kind :: "match_type \<Rightarrow> bool" where
  "ipv6_kind t \<longleftrightarrow> t \<in> {KEFIR_MATCH_TYPE_IP_6_SRC, KEFIR_MATCH_TYPE_IP_6_DST,
     KEFIR_MATCH_TYPE_IP_6_ANY, KEFIR_MATCH_TYPE_IP_6_TOS, KEFIR_MATCH_TYPE_IP_6_TTL,
     KEFIR_MATCH_TYPE_IP_6_FLAGS, KEFIR_MATCH_TYPE_IP_6_L4PROTO, KEFIR_MATCH_TYPE_IP_6_L4DATA,
     KEFIR_MATCH_TYPE_IP_6_L4PORT_SRC, KEFIR_MATCH_TYPE_IP_6_L4PORT_DST,
     KEFIR_MATCH_TYPE_IP_6_L4PORT_ANY, KEFIR_MATCH_TYPE_IP_6_SPI,
     KEFIR_MATCH_TYPE_IP_6_TCP_FLAGS}"

text \<open>
  The kinds that a keyword resolves by the family of the rule (\<open>ip_proto\<close>, \<open>ip_tos\<close>,
  \<open>ip_ttl\<close>, \<open>dst_ip\<close>, \<open>src_ip\<close>, \<open>dst_port\<close>, \<open>src_port\<close>): the rows of the table
  whose two kinds differ.
\<close>

definition family_dependent_kinds :: "match_type set" where
  "family_dependent_kinds =
     (\<Union>(kw, enc, t4, t6) \<in> set spec_keyword_table. if t4 = t6 then {} else {t4, t6})"

text \<open>
  The keywords whose literal may carry a mask (the encodings "+ optional mask" of the
  table), and the mask buffer that the codec leaves for the literal \<open>a\<close> of such a keyword
  when it starts from the zeroed buffer of a fresh slot.
\<close>

definition mask_keywords :: "string set" where
  "mask_keywords = {''dst_mac'', ''src_mac'', ''ip_tos'', ''ip_ttl'', ''dst_ip'', ''src_ip''}"

definition codec_mask :: "env \<Rightarrow> bool \<Rightarrow> string \<Rightarrow> string \<Rightarrow> 8 word list option" where
  "codec_mask env ipv6 kw a =
     (if kw = ''dst_mac'' \<or> kw = ''src_mac'' then
        map_option snd (parse_eth_addr_slash_mask env a (replicate 16 0))
      else if kw = ''ip_tos'' \<or> kw = ''ip_ttl'' then
        map_option snd (parse_uint_slash_mask env a 8 (replicate 16 0))
      else if kw = ''dst_ip'' \<or> kw = ''src_ip'' then
        (if ipv6 then map_option snd (parse_ipv6_addr_slash_mask env a (replicate 16 0))
         else map_option snd (parse_ipv4_addr_slash_mask env a (replicate 16 0)))
      else None)"

subsection \<open>An environment to run the parser\<close>

text \<open>
  Modelled from the spec: the value codec of libkefir_parse.c (\<^verbatim>\<open>parse_uint\<close>,
  \<^verbatim>\<open>parse_uint_slash_mask\<close>, \<^verbatim>\<open>parse_check_and_store_uint\<close> and the address parsers), which
  is not among the sources. This instance of the environment serves to run the parser on
  concrete tokens; every property of the parser is proved for an arbitrary environment.
  After section 6 of the specification it reads an unsigned literal, here in decimal, and
  rejects a value that does not fit the bit width; the parser with a mask buffer fills it
  with ones, the default for a literal without a suffix. It has no syntax for a suffix or
  for addresses and rejects them. The allocation succeeds.
\<close>

definition digit_of :: "char \<Rightarrow> nat option" where
  "digit_of ch =
     map_of [(CHR ''0'', 0), (CHR ''1'', 1), (CHR ''2'', 2), (CHR ''3'', 3), (CHR ''4'', 4),
             (CHR ''5'', 5), (CHR ''6'', 6), (CHR ''7'', 7), (CHR ''8'', 8), (CHR ''9'', 9)] ch"

fun decimal_from :: "nat \<Rightarrow> string \<Rightarrow> nat option" where
  "decimal_from acc [] = Some acc"
| "decimal_from acc (ch # cs) =
     (case digit_of ch of None \<Rightarrow> None | Some d \<Rightarrow> decimal_from (10 * acc + d) cs)"

definition decimal_uint :: "string \<Rightarrow> nat \<Rightarrow> nat option" where
  "decimal_uint s nb_bits =
     (if s = [] then None
      else case decimal_from 0 s of None \<Rightarrow> None
           | Some n \<Rightarrow> if n < 2 ^ nb_bits then Some n else None)"

definition example_env :: env where
  "example_env =
     \<lparr> parse_uint = decimal_uint,
       parse_uint_slash_mask =
         (\<lambda>s nb_bits mk. case decimal_uint s nb_bits of None \<Rightarrow> None
                          | Some n \<Rightarrow> Some (n, replicate 16 255)),
       parse_eth_addr_slash_mask = (\<lambda>s mk. None),
       parse_ipv4_addr_slash_mask = (\<lambda>s mk. None),
       parse_ipv6_addr_slash_mask = (\<lambda>s mk. None),
       parse_check_and_store_uint = (\<lambda>n nb_bits is_mask. if n < 2 ^ nb_bits then Some n else None),
       calloc_rule = True \<rparr>"
section \<open>Properties\<close>

subsection \<open>A match clause against the keyword table\<close>

text \<open>
  The two loops are unfolded by hand in the proofs, one iteration at a time.
\<close>

declare tcflower_parse_rule_loop.simps [simp del]
declare tcflower_check_matchlist_scan.simps [simp del]

text \<open>
  The keyword chain of the parser is the table of section 4.3: a keyword outside the table
  is rejected before the value token is read, a keyword inside it reads the value token
  and applies the encoding of its row.
\<close>

lemma keyword_cases:
  assumes "kw \<in> set (map fst spec_keyword_table)"
  shows "kw = ''dst_mac'' \<or> kw = ''src_mac'' \<or> kw = ''vlan_id'' \<or> kw = ''vlan_prio''
    \<or> kw = ''vlan_ethtype'' \<or> kw = ''cvlan_id'' \<or> kw = ''cvlan_prio''
    \<or> kw = ''cvlan_ethtype'' \<or> kw = ''ip_proto'' \<or> kw = ''ip_tos'' \<or> kw = ''ip_ttl''
    \<or> kw = ''dst_ip'' \<or> kw = ''src_ip'' \<or> kw = ''dst_port'' \<or> kw = ''src_port''"
  using assms unfolding spec_keyword_table_def by simp

lemma keyword_chain_known:
  assumes "kw \<in> set (map fst spec_keyword_table)"
  shows "tcflower_parse_match_keyword env c ipv6 m kw =
     (case map_of spec_keyword_table kw of
        None \<Rightarrow> Inl (UnsupportedMatchKeyword kw)
      | Some (enc, t4, t6) \<Rightarrow>
          (case cur (NEXT_ARG c) of None \<Rightarrow> Inl ReadPastEnd | Some a \<Rightarrow>
            (case spec_encode env ipv6 enc a (mask_m m) of Inl e \<Rightarrow> Inl e
             | Inr (v, mk) \<Rightarrow>
                 Inr (NEXT_ARG c, m\<lparr> value_m := v, mask_m := mk,
                        match_type := (if ipv6 then t6 else t4) \<rparr>))))"
  using keyword_cases [OF assms]
  apply (elim disjE)
  apply (simp_all add: tcflower_parse_match_keyword_def spec_keyword_table_def spec_encode_def
        spec_store_uint_def tcflower_parse_ipproto_def spec_ipproto_alias_def
        IPPROTO_TCP_def IPPROTO_UDP_def IPPROTO_SCTP_def IPPROTO_ICMP_def IPPROTO_ICMPV6_def
        split: option.splits)
  done

lemma keyword_chain_unknown:
  assumes "kw \<notin> set (map fst spec_keyword_table)"
  shows "tcflower_parse_match_keyword env c ipv6 m kw = Inl (UnsupportedMatchKeyword kw)"
  using assms unfolding tcflower_parse_match_keyword_def spec_keyword_table_def by simp

lemma keyword_chain_table:
  "tcflower_parse_match_keyword env c ipv6 m kw =
     (case map_of spec_keyword_table kw of
        None \<Rightarrow> Inl (UnsupportedMatchKeyword kw)
      | Some (enc, t4, t6) \<Rightarrow>
          (case cur (NEXT_ARG c) of None \<Rightarrow> Inl ReadPastEnd | Some a \<Rightarrow>
            (case spec_encode env ipv6 enc a (mask_m m) of Inl e \<Rightarrow> Inl e
             | Inr (v, mk) \<Rightarrow>
                 Inr (NEXT_ARG c, m\<lparr> value_m := v, mask_m := mk,
                        match_type := (if ipv6 then t6 else t4) \<rparr>))))"
proof (cases "kw \<in> set (map fst spec_keyword_table)")
  case True
  then show ?thesis by (rule keyword_chain_known)
next
  case False
  then have "map_of spec_keyword_table kw = None"
    by (simp add: map_of_eq_None_iff)
  with False show ?thesis by (simp add: keyword_chain_unknown)
qed

text \<open>
  One call of \<open>tcflower_parse_match\<close> on a cursor with at least two tokens consumes the
  keyword and the value and writes the match of \<open>spec_clause\<close> into the slot.
\<close>

lemma parse_match_refines:
  "tcflower_parse_match env c ethtype m =
     (if argc c < 2 then Inl (BadArgumentCount MatchValue)
      else case argv c of
        [] \<Rightarrow> Inl ReadPastEnd
      | kw # r \<Rightarrow>
         (case map_of spec_keyword_table kw of
            None \<Rightarrow> Inl (UnsupportedMatchKeyword kw)
          | Some entry \<Rightarrow>
             (case r of
                [] \<Rightarrow> Inl ReadPastEnd
              | a # rest \<Rightarrow>
                 (case spec_clause env (ethtype = TCFLOWER_ETH_PROTO_IPV6) kw a m of
                    Inl e \<Rightarrow> Inl e
                  | Inr m' \<Rightarrow>
                     if argc c - 2 < 1 then Inl (BadArgumentCount MatchValue)
                     else Inr (\<lparr> argv = rest, argc = argc c - 2 \<rparr>, m')))))"
  by (cases c; cases m)
     (simp add: tcflower_parse_match_def keyword_chain_table spec_clause_def cur_def NEXT_ARG_def
        split: list.splits option.splits sum.splits prod.splits)

subsection \<open>The match loop on a list of clauses\<close>

text \<open>The comparisons and the two decrements of the 32-bit count, read as numbers.\<close>

lemma argc_gt2_iff: "2 < (a::32 word) \<longleftrightarrow> 2 < unat a"
  by (simp add: word_less_nat_alt)

lemma argc_lt2_iff: "(a::32 word) < 2 \<longleftrightarrow> unat a < 2"
  by (simp add: word_less_nat_alt)

lemma unat_argc_sub2: "2 \<le> unat (a::32 word) \<Longrightarrow> unat (a - 2) = unat a - 2"
proof -
  assume h: "2 \<le> unat a"
  then have "(2::32 word) \<le> a" by (simp add: word_le_nat_alt)
  then have "unat (a - 2) = unat a - unat (2::32 word)" by (rule unat_sub)
  then show ?thesis by simp
qed

text \<open>The loop either stops at once or runs one clause and goes on.\<close>

lemma loop_exit:
  "\<not> (2 < argc c \<and> i < 5) \<Longrightarrow> tcflower_parse_rule_loop env eth c ms i = Inr (c, ms, i)"
  by (subst tcflower_parse_rule_loop.simps) (auto simp: KEFIR_MAX_MATCH_PER_RULE_def)

lemma loop_step:
  "2 < argc c \<Longrightarrow> i < 5 \<Longrightarrow>
   tcflower_parse_rule_loop env eth c ms i =
     (case tcflower_parse_match env c eth (ms ! i) of
        Inl e \<Rightarrow> Inl e
      | Inr (c', m') \<Rightarrow> tcflower_parse_rule_loop env eth c' (ms[i := m']) (Suc i))"
  by (subst tcflower_parse_rule_loop.simps) (simp add: KEFIR_MAX_MATCH_PER_RULE_def)

lemma spec_clause_in_table:
  "spec_clause env v6 kw a m = Inr x \<Longrightarrow> \<exists>entry. map_of spec_keyword_table kw = Some entry"
  by (auto simp: spec_clause_def split: option.splits)

lemma parse_match_on_clause:
  assumes "spec_clause env (eth = TCFLOWER_ETH_PROTO_IPV6) kw v m = Inr x" and "3 \<le> unat a"
  shows "tcflower_parse_match env \<lparr> argv = kw # v # rest, argc = a \<rparr> eth m
           = Inr (\<lparr> argv = rest, argc = a - 2 \<rparr>, x)"
proof -
  obtain entry where e: "map_of spec_keyword_table kw = Some entry"
    using spec_clause_in_table [OF assms(1)] by blast
  have n2: "\<not> a < 2" using assms(2) by (simp add: argc_lt2_iff)
  have "unat (a - 2) = unat a - 2" using assms(2) by (simp add: unat_argc_sub2)
  then have "unat (a - 2) \<noteq> 0" using assms(2) by simp
  then have n1: "\<not> (a - 2 < 1)" by (simp add: unat_eq_zero)
  show ?thesis
    using n1 by (simp add: parse_match_refines assms(1) e n2)
qed

text \<open>
  The loop on the tokens of \<open>cls\<close> followed by \<open>rest\<close>: when the count is the number
  of these tokens, every clause is accepted by the table, the slots from \<open>idx\<close> on are
  still zero and \<open>rest\<close> stops the loop, the loop fills the slots \<open>idx, idx + 1, ...\<close> with
  the matches of the clauses in token order and leaves the cursor on \<open>rest\<close>.
\<close>

lemma loop_on_clauses:
  assumes "list_all2 (\<lambda>(kw, v) x. spec_clause env (eth = TCFLOWER_ETH_PROTO_IPV6) kw v zero_match = Inr x) cls xs"
    and "idx + length cls \<le> 5" and "length ms = 5"
    and "\<forall>i. idx \<le> i \<and> i < 5 \<longrightarrow> ms ! i = zero_match"
    and "unat a = 2 * length cls + length rest"
    and "rest \<noteq> []" and "length rest \<le> 2 \<or> idx + length cls = 5"
  shows "tcflower_parse_rule_loop env eth \<lparr> argv = clause_tokens cls @ rest, argc = a \<rparr> ms idx
     = Inr (\<lparr> argv = rest, argc = a - 2 * of_nat (length cls) \<rparr>,
            take idx ms @ xs @ drop (idx + length cls) ms, idx + length cls)"
  using assms
proof (induction cls xs arbitrary: ms idx a rule: list_all2_induct)
  case Nil
  then have "\<not> (2 < argc \<lparr> argv = rest, argc = a \<rparr> \<and> idx < 5)"
    by (auto simp: argc_gt2_iff)
  then show ?case
    by (simp add: loop_exit clause_tokens_def del: cursor.simps)
next
  case (Cons cl cls x xs)
  obtain kw v where cl: "cl = (kw, v)" by (cases cl)
  from Cons.prems have idx: "idx < 5" and len: "length ms = 5" by simp_all
  have rest1: "1 \<le> length rest" using Cons.prems(5) by (cases rest) simp_all
  have a3: "3 \<le> unat a" using Cons.prems(4) rest1 by simp
  then have cond: "2 < a"
    by (simp add: argc_gt2_iff)
  have slot: "ms ! idx = zero_match" using Cons.prems(3) idx by simp
  have sc: "spec_clause env (eth = TCFLOWER_ETH_PROTO_IPV6) kw v (ms ! idx) = Inr x"
    using Cons.hyps(1) cl slot by simp
  have step: "tcflower_parse_match env \<lparr> argv = kw # v # (clause_tokens cls @ rest), argc = a \<rparr> eth (ms ! idx)
      = Inr (\<lparr> argv = clause_tokens cls @ rest, argc = a - 2 \<rparr>, x)"
    by (rule parse_match_on_clause [OF sc a3])
  have ua: "unat (a - 2) = 2 * length cls + length rest"
    using Cons.prems(4) a3 by (simp add: unat_argc_sub2)
  have ih: "tcflower_parse_rule_loop env eth \<lparr> argv = clause_tokens cls @ rest, argc = a - 2 \<rparr>
        (ms[idx := x]) (Suc idx)
     = Inr (\<lparr> argv = rest, argc = a - 2 - 2 * of_nat (length cls) \<rparr>,
            take (Suc idx) (ms[idx := x]) @ xs @ drop (Suc idx + length cls) (ms[idx := x]),
            Suc idx + length cls)"
  proof (rule Cons.IH)
    show "Suc idx + length cls \<le> 5" using Cons.prems(1) by simp
    show "length (ms[idx := x]) = 5" using len by simp
    show "\<forall>i. Suc idx \<le> i \<and> i < 5 \<longrightarrow> ms[idx := x] ! i = zero_match"
      using Cons.prems(3) by simp
    show "unat (a - 2) = 2 * length cls + length rest" by (rule ua)
    show "rest \<noteq> []" by (rule Cons.prems(5))
    show "length rest \<le> 2 \<or> Suc idx + length cls = 5" using Cons.prems(6) by simp
  qed
  have tk: "take (Suc idx) (ms[idx := x]) = take idx ms @ [x]"
    using idx len by (simp add: take_Suc_conv_app_nth)
  have toks: "clause_tokens (cl # cls) @ rest = kw # v # (clause_tokens cls @ rest)"
    by (simp add: clause_tokens_def cl)
  show ?case
    by (simp add: toks loop_step cond idx step ih tk algebra_simps)
qed

subsection \<open>What a successful match loop has read\<close>

text \<open>A successful call has read a keyword of the table and its value.\<close>

lemma parse_match_success:
  assumes "tcflower_parse_match env c eth m = Inr (c1, m1)"
  shows "\<exists>kw v rest. argv c = kw # v # rest \<and>
           spec_clause env (eth = TCFLOWER_ETH_PROTO_IPV6) kw v m = Inr m1 \<and>
           c1 = \<lparr> argv = rest, argc = argc c - 2 \<rparr>"
  using assms
  by (auto simp: parse_match_refines split: if_splits list.splits option.splits sum.splits)

text \<open>
  The converse of \<open>loop_on_clauses\<close>: when the loop from index \<open>idx\<close> over zeroed slots
  returns, the tokens it consumed are the tokens of a list of clauses, the slots
  \<open>idx, idx + 1, ...\<close> hold their matches in token order, the count dropped by two for each
  clause, the loop condition held before each clause and fails at the end.
\<close>

lemma loop_success:
  assumes "tcflower_parse_rule_loop env eth c ms idx = Inr (c', ms', idx')"
    and "length ms = 5" and "idx \<le> 5"
    and "\<forall>i. idx \<le> i \<and> i < 5 \<longrightarrow> ms ! i = zero_match"
  shows "\<exists>cls xs. argv c = clause_tokens cls @ argv c' \<and>
           list_all2 (\<lambda>(kw, v) x. spec_clause env (eth = TCFLOWER_ETH_PROTO_IPV6) kw v zero_match = Inr x) cls xs \<and>
           idx' = idx + length cls \<and> idx' \<le> 5 \<and>
           ms' = take idx ms @ xs @ drop idx' ms \<and>
           argc c' = argc c - 2 * of_nat (length cls) \<and>
           (\<forall>j < length cls. 2 < argc c - 2 * of_nat j) \<and>
           \<not> (2 < argc c' \<and> idx' < 5)"
  using assms
proof (induction env eth c ms idx rule: tcflower_parse_rule_loop.induct)
  case (1 env eth c ms idx)
  show ?case
  proof (cases "2 < argc c \<and> idx < 5")
    case False
    then have "tcflower_parse_rule_loop env eth c ms idx = Inr (c, ms, idx)"
      by (rule loop_exit)
    with "1.prems"(1) have eq: "c' = c" "ms' = ms" "idx' = idx" by simp_all
    have "argv c = clause_tokens [] @ argv c'" by (simp add: clause_tokens_def eq)
    moreover have "list_all2 (\<lambda>(kw, v) x. spec_clause env (eth = TCFLOWER_ETH_PROTO_IPV6) kw v zero_match = Inr x) [] []"
      by simp
    ultimately show ?thesis
      using False "1.prems"(3) eq
      by (intro exI [of _ "[]"]) simp
  next
    case True
    then have gt: "2 < argc c" and idx: "idx < 5" by simp_all
    from "1.prems"(1) gt idx obtain c1 m1 where
      pm: "tcflower_parse_match env c eth (ms ! idx) = Inr (c1, m1)" and
      rec: "tcflower_parse_rule_loop env eth c1 (ms[idx := m1]) (Suc idx) = Inr (c', ms', idx')"
      by (auto simp: loop_step split: sum.splits)
    from parse_match_success [OF pm] obtain kw v rest where
      av: "argv c = kw # v # rest" and
      sc: "spec_clause env (eth = TCFLOWER_ETH_PROTO_IPV6) kw v (ms ! idx) = Inr m1" and
      c1: "c1 = \<lparr> argv = rest, argc = argc c - 2 \<rparr>"
      by blast
    have slot: "ms ! idx = zero_match" using "1.prems"(4) idx by simp
    have "\<exists>cls xs. argv c1 = clause_tokens cls @ argv c' \<and>
           list_all2 (\<lambda>(kw, v) x. spec_clause env (eth = TCFLOWER_ETH_PROTO_IPV6) kw v zero_match = Inr x) cls xs \<and>
           idx' = Suc idx + length cls \<and> idx' \<le> 5 \<and>
           ms' = take (Suc idx) (ms[idx := m1]) @ xs @ drop idx' (ms[idx := m1]) \<and>
           argc c' = argc c1 - 2 * of_nat (length cls) \<and>
           (\<forall>j < length cls. 2 < argc c1 - 2 * of_nat j) \<and>
           \<not> (2 < argc c' \<and> idx' < 5)"
    proof (rule "1.IH" [OF _ pm refl rec])
      show "2 < argc c \<and> idx < KEFIR_MAX_MATCH_PER_RULE"
        using True by (simp add: KEFIR_MAX_MATCH_PER_RULE_def)
      show "length (ms[idx := m1]) = 5" using "1.prems"(2) by simp
      show "Suc idx \<le> 5" using idx by simp
      show "\<forall>i. Suc idx \<le> i \<and> i < 5 \<longrightarrow> ms[idx := m1] ! i = zero_match"
        using "1.prems"(4) by simp
    qed
    then obtain cls xs where
      r1: "argv c1 = clause_tokens cls @ argv c'" and
      r2: "list_all2 (\<lambda>(kw, v) x. spec_clause env (eth = TCFLOWER_ETH_PROTO_IPV6) kw v zero_match = Inr x) cls xs" and
      r3: "idx' = Suc idx + length cls" and r4: "idx' \<le> 5" and
      r5: "ms' = take (Suc idx) (ms[idx := m1]) @ xs @ drop idx' (ms[idx := m1])" and
      r6: "argc c' = argc c1 - 2 * of_nat (length cls)" and
      r7: "\<forall>j < length cls. 2 < argc c1 - 2 * of_nat j" and
      r8: "\<not> (2 < argc c' \<and> idx' < 5)"
      by blast
    let ?cls = "(kw, v) # cls" and ?xs = "m1 # xs"
    have a1: "argv c = clause_tokens ?cls @ argv c'"
      using av r1 c1 by (simp add: clause_tokens_def)
    have a2: "list_all2 (\<lambda>(kw, v) x. spec_clause env (eth = TCFLOWER_ETH_PROTO_IPV6) kw v zero_match = Inr x) ?cls ?xs"
      using r2 sc slot by simp
    have a3: "idx' = idx + length ?cls" using r3 by simp
    have tk: "take (Suc idx) (ms[idx := m1]) = take idx ms @ [m1]"
      using idx "1.prems"(2) by (simp add: take_Suc_conv_app_nth)
    have dr: "drop idx' (ms[idx := m1]) = drop idx' ms"
      using r3 by simp
    have a5: "ms' = take idx ms @ ?xs @ drop idx' ms"
      using r5 tk dr by simp
    have a6: "argc c' = argc c - 2 * of_nat (length ?cls)"
      using r6 c1 by (simp add: algebra_simps)
    have a7: "\<forall>j < length ?cls. 2 < argc c - 2 * of_nat j"
    proof (intro allI impI)
      fix j assume j: "j < length ?cls"
      show "2 < argc c - 2 * of_nat j"
      proof (cases j)
        case 0
        then show ?thesis using gt by simp
      next
        case (Suc k)
        then have "k < length cls" using j by simp
        then have "2 < argc c1 - 2 * of_nat k" using r7 by simp
        then show ?thesis using Suc c1 by (simp add: algebra_simps)
      qed
    qed
    show ?thesis
      using a1 a2 a3 r4 a5 a6 a7 r8
      by (intro exI [of _ ?cls] exI [of _ ?xs]) blast
  qed
qed

subsection \<open>The validator of the match list\<close>

text \<open>
  The scan from slot \<open>i\<close> adds to the two flags what the slots from \<open>i\<close> up to the first
  \<open>UNSPEC\<close> slot hold, in any order; the result of the validator follows.
\<close>

lemma labels_not_unspec:
  "\<not> l4proto_label KEFIR_MATCH_TYPE_UNSPEC" "\<not> l4port_label KEFIR_MATCH_TYPE_UNSPEC"
  by (simp_all add: l4proto_label_def l4port_label_def)

lemma labels_disjoint: "l4proto_label t \<Longrightarrow> \<not> l4port_label t"
  by (auto simp: l4proto_label_def l4port_label_def)

lemma scan_result:
  assumes "5 \<le> length ms"
  shows "tcflower_check_matchlist_scan ms i p q =
     (p \<or> (\<exists>m \<in> set (takeWhile (\<lambda>m. match_type m \<noteq> KEFIR_MATCH_TYPE_UNSPEC) (drop i (take 5 ms))).
              l4port_label (match_type m)),
      q \<or> (\<exists>m \<in> set (takeWhile (\<lambda>m. match_type m \<noteq> KEFIR_MATCH_TYPE_UNSPEC) (drop i (take 5 ms))).
              l4proto_label (match_type m)))"
  using assms
proof (induction ms i p q rule: tcflower_check_matchlist_scan.induct)
  case (1 ms i p q)
  show ?case
  proof (cases "i < 5")
    case False
    then show ?thesis
      by (subst tcflower_check_matchlist_scan.simps) (simp add: KEFIR_MAX_MATCH_PER_RULE_def)
  next
    case True
    then have dr: "drop i (take 5 ms) = ms ! i # drop (Suc i) (take 5 ms)"
      using "1.prems" by (simp add: Cons_nth_drop_Suc [symmetric])
    have k: "i < KEFIR_MAX_MATCH_PER_RULE" using True by (simp add: KEFIR_MAX_MATCH_PER_RULE_def)
    show ?thesis
    proof (cases "match_type (ms ! i) = KEFIR_MATCH_TYPE_UNSPEC")
      case u: True
      then show ?thesis
        by (subst tcflower_check_matchlist_scan.simps) (simp add: k dr)
    next
      case nu: False
      show ?thesis
      proof (cases "l4proto_label (match_type (ms ! i))")
        case pr: True
        then have np: "\<not> l4port_label (match_type (ms ! i))" by (rule labels_disjoint)
        show ?thesis
          apply (subst tcflower_check_matchlist_scan.simps)
          using "1.IH"(1) [OF k nu pr "1.prems"] pr np nu
          apply (simp add: k dr)
          done
      next
        case npr: False
        show ?thesis
        proof (cases "l4port_label (match_type (ms ! i))")
          case po: True
          show ?thesis
            apply (subst tcflower_check_matchlist_scan.simps)
            using "1.IH"(2) [OF k nu npr po "1.prems"] po npr nu
            apply (simp add: k dr)
            done
        next
          case npo: False
          show ?thesis
            apply (subst tcflower_check_matchlist_scan.simps)
            using "1.IH"(3) [OF k nu npr npo "1.prems"] npo npr nu
            apply (simp add: k dr)
            done
        qed
      qed
    qed
  qed
qed

lemma check_matchlist_iff:
  assumes "5 \<le> length ms"
  shows "tcflower_check_matchlist ms =
     (if (\<exists>m \<in> set (matches_upto_unspec ms). l4port_label (match_type m)) \<and>
         \<not> (\<exists>m \<in> set (matches_upto_unspec ms). l4proto_label (match_type m))
      then Inl MissingRequiredMatch else Inr ())"
  by (simp add: tcflower_check_matchlist_def scan_result [OF assms] matches_upto_unspec_def KEFIR_MAX_MATCH_PER_RULE_def)

subsection \<open>The match of one clause\<close>

text \<open>
  What the table says about the match of an accepted clause: its keyword is in the table,
  the upper bound and the flags of the slot stay, the operator is equal, the kind is not
  \<open>UNSPEC\<close>, and the kind is a protocol or a port kind exactly for the keywords
  \<open>ip_proto\<close> and \<open>dst_port\<close>, \<open>src_port\<close>.
\<close>

lemma spec_clause_keyword:
  assumes "spec_clause env v6 kw v m = Inr x"
  shows "kw \<in> set (map fst spec_keyword_table)"
proof -
  obtain entry where "map_of spec_keyword_table kw = Some entry"
    using spec_clause_in_table [OF assms] by blast
  then have "(kw, entry) \<in> set spec_keyword_table" by (rule map_of_SomeD)
  then show ?thesis by force
qed

lemmas spec_clause_unfold =
  spec_clause_def spec_keyword_table_def spec_encode_def spec_store_uint_def

lemma spec_clause_frame:
  assumes "spec_clause env v6 kw v m = Inr x"
  shows "flags x = flags m \<and> max_value x = max_value m \<and> comp_operator x = OPER_EQUAL"
  using assms
  by (auto simp: spec_clause_def split: option.splits sum.splits)

lemma spec_clause_kind:
  assumes "spec_clause env v6 kw v m = Inr x"
  shows "match_type x \<noteq> KEFIR_MATCH_TYPE_UNSPEC"
    and "l4proto_label (match_type x) \<longleftrightarrow> kw = ''ip_proto''"
    and "l4port_label (match_type x) \<longleftrightarrow> kw = ''dst_port'' \<or> kw = ''src_port''"
  using keyword_cases [OF spec_clause_keyword [OF assms]] assms
  by (elim disjE; simp add: spec_clause_unfold l4proto_label_def l4port_label_def
        split: option.splits sum.splits if_splits; fastforce)+

text \<open>
  The family of the kind follows the family of the rule, and the mask of a match written
  into a zeroed slot is the zeroed buffer unless the keyword hands the buffer to the codec.
\<close>

lemma spec_clause_family:
  assumes "spec_clause env v6 kw v m = Inr x"
  shows "v6 \<longrightarrow> \<not> ipv4_kind (match_type x)"
    and "\<not> v6 \<longrightarrow> \<not> ipv6_kind (match_type x)"
    and "match_type x \<in> family_dependent_kinds \<longrightarrow>
           (if v6 then ipv6_kind (match_type x) else ipv4_kind (match_type x))"
  using keyword_cases [OF spec_clause_keyword [OF assms]] assms
  by (elim disjE; simp add: spec_clause_unfold ipv4_kind_def ipv6_kind_def family_dependent_kinds_def
        split: option.splits sum.splits if_splits; fastforce)+

lemma spec_clause_mask:
  assumes "spec_clause env v6 kw v m = Inr x" and "mask_m m = replicate 16 0"
  shows "kw \<notin> mask_keywords \<longrightarrow> mask_m x = replicate 16 0"
    and "kw \<in> mask_keywords \<longrightarrow> codec_mask env v6 kw v = Some (mask_m x)"
  using keyword_cases [OF spec_clause_keyword [OF assms(1)]] assms
  by (elim disjE; simp add: spec_clause_unfold mask_keywords_def codec_mask_def
        split: option.splits sum.splits if_splits; fastforce)+

lemma zero_match_fields:
  "match_type zero_match = KEFIR_MATCH_TYPE_UNSPEC" "comp_operator zero_match = OPER_EQUAL"
  "max_value zero_match = replicate 16 0" "mask_m zero_match = replicate 16 0"
  "flags zero_match = 0" "value_m zero_match = value_zero"
  by (simp_all add: zero_match_def)

lemma unspec_not_family:
  "\<not> ipv4_kind KEFIR_MATCH_TYPE_UNSPEC" "\<not> ipv6_kind KEFIR_MATCH_TYPE_UNSPEC"
  "KEFIR_MATCH_TYPE_UNSPEC \<notin> family_dependent_kinds"
  by (simp_all add: ipv4_kind_def ipv6_kind_def family_dependent_kinds_def spec_keyword_table_def)

subsection \<open>The rule parser around the loop\<close>

text \<open>The action clause: the count must be 2, then \<open>action\<close> and one of the two codes.\<close>

lemma parse_action_count:
  "argc c \<noteq> 2 \<Longrightarrow> tcflower_parse_action c = Inl (BadArgumentCount ActionClause)"
  by (simp add: tcflower_parse_action_def)

lemma parse_action_on:
  assumes "spec_action act = Some a"
  shows "tcflower_parse_action \<lparr> argv = ''action'' # act # rest, argc = 2 \<rparr>
           = Inr (\<lparr> argv = act # rest, argc = 1 \<rparr>, a)"
proof -
  have "act = ''pass'' \<and> a = ACTION_CODE_PASS \<or> act \<noteq> ''pass'' \<and> act = ''drop'' \<and> a = ACTION_CODE_DROP"
    using assms by (simp add: spec_action_def split: if_splits)
  then show ?thesis
    by (elim disjE conjE) (simp_all add: tcflower_parse_action_def cur_def NEXT_ARG_def)
qed

lemma parse_action_success:
  assumes "tcflower_parse_action c = Inr (c4, a)"
  shows "argc c = 2 \<and> (\<exists>act rest. argv c = ''action'' # act # rest \<and> spec_action act = Some a)"
proof -
  have c2: "argc c = 2"
    using assms by (simp add: tcflower_parse_action_def split: if_splits)
  obtain t r where av: "argv c = t # r"
    using assms c2 by (cases "argv c") (simp_all add: tcflower_parse_action_def cur_def)
  have t: "t = ''action''"
    using assms c2 av by (simp add: tcflower_parse_action_def cur_def split: if_splits)
  obtain act rest where r: "r = act # rest"
    using assms c2 av t by (cases r) (simp_all add: tcflower_parse_action_def cur_def NEXT_ARG_def)
  have "spec_action act = Some a"
    using assms c2 av t r
    by (auto simp: tcflower_parse_action_def cur_def NEXT_ARG_def spec_action_def Let_def
          split: if_splits)
  then show ?thesis using c2 av t r by simp
qed

text \<open>
  The statements before the loop: on a token array of at least 6 tokens that begins with
  \<open>protocol\<close>, the family token selects the family and an optional \<open>flower\<close> is skipped.
\<close>

lemma parse_ethproto_family:
  "tcflower_parse_ethproto \<lparr> argv = fam # rest, argc = n \<rparr> =
     (case spec_family fam of None \<Rightarrow> Inl (UnsupportedProtocol fam)
      | Some eth \<Rightarrow> Inr (\<lparr> argv = rest, argc = n - 1 \<rparr>, eth))"
  by (simp add: tcflower_parse_ethproto_def cur_def NEXT_ARG_def spec_family_def)

lemma parse_rule_head:
  assumes "6 \<le> rule_size"
  shows "tcflower_parse_rule env (''protocol'' # fam # t # ts) rule_size =
     (case spec_family fam of None \<Rightarrow> Inl (UnsupportedProtocol fam)
      | Some eth \<Rightarrow>
          after_loop env (tcflower_parse_rule_loop env eth
            (if t = ''flower'' then \<lparr> argv = ts, argc = of_nat rule_size - 3 \<rparr>
             else \<lparr> argv = t # ts, argc = of_nat rule_size - 2 \<rparr>)
            (replicate 5 zero_match) 0))"
  using assms
  by (simp add: tcflower_parse_rule_def after_loop_def cur_def NEXT_ARG_def parse_ethproto_family
        KEFIR_MAX_MATCH_PER_RULE_def split: option.splits)

lemma flower_not_keyword: "''flower'' \<notin> set (map fst spec_keyword_table)"
  by (simp add: spec_keyword_table_def)

text \<open>
  The parser on a token array of the grammar: the loop fills the first slots with the
  matches of the clauses and hands the rest of the tokens to the validator and the action
  clause.
\<close>

lemma loop_from_start:
  assumes wf: "list_all2 (\<lambda>(kw, v) x. spec_clause env (eth = TCFLOWER_ETH_PROTO_IPV6) kw v zero_match = Inr x) cls xs"
    and le: "length cls \<le> 5"
    and rest: "rest \<noteq> []" "length rest \<le> 2 \<or> length cls = 5"
    and sz: "2 * length cls + length rest < 2 ^ 32"
  shows "tcflower_parse_rule_loop env eth
           \<lparr> argv = clause_tokens cls @ rest, argc = of_nat (2 * length cls + length rest) \<rparr>
           (replicate 5 zero_match) 0
     = Inr (\<lparr> argv = rest, argc = of_nat (length rest) \<rparr>,
            xs @ replicate (5 - length cls) zero_match, length cls)"
proof -
  have u: "unat (of_nat (2 * length cls + length rest) :: 32 word) = 2 * length cls + length rest"
    using sz by (simp only: unat_of_nat len_of_numeral_defs) simp
  have "tcflower_parse_rule_loop env eth
           \<lparr> argv = clause_tokens cls @ rest, argc = of_nat (2 * length cls + length rest) \<rparr>
           (replicate 5 zero_match) 0
     = Inr (\<lparr> argv = rest, argc = of_nat (2 * length cls + length rest) - 2 * of_nat (length cls) \<rparr>,
            take 0 (replicate 5 zero_match) @ xs @ drop (0 + length cls) (replicate 5 zero_match),
            0 + length cls)"
    using wf _ _ _ u rest(1)
  proof (rule loop_on_clauses)
    show "0 + length cls \<le> 5" using le by simp
    show "length (replicate 5 zero_match) = 5" by simp
    show "\<forall>i. 0 \<le> i \<and> i < 5 \<longrightarrow> replicate 5 zero_match ! i = zero_match" by simp
    show "length rest \<le> 2 \<or> 0 + length cls = 5" using rest(2) by simp
  qed
  then show ?thesis by simp
qed

lemma parse_rule_on_grammar:
  assumes fam: "spec_family fam = Some eth"
    and fl: "fl = [] \<or> fl = [''flower'']"
    and wf: "list_all2 (\<lambda>(kw, v) x. spec_clause env (eth = TCFLOWER_ETH_PROTO_IPV6) kw v zero_match = Inr x) cls xs"
    and ne: "cls \<noteq> []" and le: "length cls \<le> 5"
    and rest: "rest \<noteq> []" "length rest \<le> 2 \<or> length cls = 5"
    and toks: "toks = ''protocol'' # fam # fl @ clause_tokens cls @ rest"
    and sz: "6 \<le> length toks" "length toks < 2 ^ 32"
  shows "tcflower_parse_rule env toks (length toks) =
      after_loop env (Inr (\<lparr> argv = rest, argc = of_nat (length rest) \<rparr>,
                           xs @ replicate (5 - length cls) zero_match, length cls))"
proof -
  have lct: "length (clause_tokens cls) = 2 * length cls"
    by (induction cls) (auto simp: clause_tokens_def)
  obtain kw v cls' where cls: "cls = (kw, v) # cls'" using ne by (cases cls) auto
  obtain x xs' where xs: "xs = x # xs'" using wf cls by (cases xs) auto
  have "spec_clause env (eth = TCFLOWER_ETH_PROTO_IPV6) kw v zero_match = Inr x"
    using wf cls xs by simp
  then have "kw \<in> set (map fst spec_keyword_table)" by (rule spec_clause_keyword)
  then have kwf: "kw \<noteq> ''flower''" using flower_not_keyword by metis
  have ct: "clause_tokens cls @ rest = kw # v # clause_tokens cls' @ rest"
    by (simp add: cls clause_tokens_def)
  have sz': "2 * length cls + length rest < 2 ^ 32" using sz(2) toks lct by simp
  note lp = loop_from_start [OF wf le rest sz']
  from fl show ?thesis
  proof
    assume f: "fl = []"
    have len: "length toks = 2 * length cls + length rest + 2" using toks f lct by simp
    have w: "(of_nat (length toks) :: 32 word) - 2 = of_nat (2 * length cls + length rest)"
      by (simp add: len)
    have t: "toks = ''protocol'' # fam # kw # (v # clause_tokens cls' @ rest)"
      using toks f ct by simp
    have "tcflower_parse_rule env toks (length toks) =
        after_loop env (tcflower_parse_rule_loop env eth
          \<lparr> argv = kw # v # clause_tokens cls' @ rest, argc = of_nat (length toks) - 2 \<rparr>
          (replicate 5 zero_match) 0)"
      by (subst (1) t) (simp add: parse_rule_head [OF sz(1)] fam kwf)
    then show ?thesis using lp by (simp only: w ct [symmetric])
  next
    assume f: "fl = [''flower'']"
    have len: "length toks = 2 * length cls + length rest + 3" using toks f lct by simp
    have w: "(of_nat (length toks) :: 32 word) - 3 = of_nat (2 * length cls + length rest)"
      by (simp add: len)
    have t: "toks = ''protocol'' # fam # ''flower'' # (clause_tokens cls @ rest)"
      using toks f by simp
    have "tcflower_parse_rule env toks (length toks) =
        after_loop env (tcflower_parse_rule_loop env eth
          \<lparr> argv = clause_tokens cls @ rest, argc = of_nat (length toks) - 3 \<rparr>
          (replicate 5 zero_match) 0)"
      by (subst (1) t) (simp add: parse_rule_head [OF sz(1)] fam)
    then show ?thesis using lp by (simp only: w)
  qed
qed

lemma length_clause_tokens: "length (clause_tokens cls) = 2 * length cls"
  by (induction cls) (auto simp: clause_tokens_def)

text \<open>
  The converse: a token array on which the parser returns a rule is an array of the
  grammar, possibly followed by more tokens when its size does not fit 32 bits; the slots
  of the rule are the matches of its clauses in token order, followed by zeroed slots.
\<close>

lemma after_loop_success:
  assumes "after_loop env res = Inr r"
  shows "\<exists>c3 ms k c4 a. res = Inr (c3, ms, k) \<and> tcflower_check_matchlist ms = Inr () \<and>
           tcflower_parse_action c3 = Inr (c4, a) \<and> calloc_rule env \<and>
           r = \<lparr> matches = ms, action = a \<rparr>"
  using assms
  by (auto simp: after_loop_def tcflower_compose_rule_def split: sum.splits prod.splits if_splits)

lemma parse_rule_success:
  assumes ok: "tcflower_parse_rule env toks (length toks) = Inr r"
  shows "\<exists>fam eth fl cls xs act rest.
      toks = ''protocol'' # fam # fl @ clause_tokens cls @ ''action'' # act # rest \<and>
      spec_family fam = Some eth \<and> (fl = [] \<or> fl = [''flower'']) \<and>
      (fl = [] \<longrightarrow> toks ! 2 \<noteq> ''flower'') \<and>
      list_all2 (\<lambda>(kw, v) x. spec_clause env (eth = TCFLOWER_ETH_PROTO_IPV6) kw v zero_match = Inr x) cls xs \<and>
      length cls \<le> 5 \<and>
      matches r = xs @ replicate (5 - length cls) zero_match \<and>
      spec_action act = Some (action r) \<and> calloc_rule env \<and>
      tcflower_check_matchlist (matches r) = Inr () \<and>
      (length toks < 2 ^ 32 \<longrightarrow> rest = [] \<and> cls \<noteq> [])"
proof -
  have sz: "6 \<le> length toks"
    using ok by (simp add: tcflower_parse_rule_def split: if_splits)
  then obtain t0 fam t ts where toks: "toks = t0 # fam # t # ts"
    by (cases toks; cases "tl toks"; cases "tl (tl toks)") auto
  have t0: "t0 = ''protocol''"
    using ok sz toks by (simp add: tcflower_parse_rule_def cur_def split: if_splits)
  note hd = parse_rule_head [OF sz, of env fam t ts]
  obtain eth where fam: "spec_family fam = Some eth"
    using ok hd toks t0 by (cases "spec_family fam") simp_all
  define c2 where "c2 = (if t = ''flower'' then \<lparr> argv = ts, argc = of_nat (length toks) - 3 \<rparr>
             else \<lparr> argv = t # ts, argc = of_nat (length toks) - 2 \<rparr>)"
  define fl where "fl = (if t = ''flower'' then [''flower''] else [])"
  have al: "after_loop env (tcflower_parse_rule_loop env eth c2 (replicate 5 zero_match) 0) = Inr r"
    using ok hd toks t0 fam by (simp add: c2_def)
  from after_loop_success [OF al] obtain c3 ms k c4 a where
    lp: "tcflower_parse_rule_loop env eth c2 (replicate 5 zero_match) 0 = Inr (c3, ms, k)" and
    ck: "tcflower_check_matchlist ms = Inr ()" and
    pa: "tcflower_parse_action c3 = Inr (c4, a)" and
    ca: "calloc_rule env" and r: "r = \<lparr> matches = ms, action = a \<rparr>"
    by blast
  have "\<exists>cls xs. argv c2 = clause_tokens cls @ argv c3 \<and>
           list_all2 (\<lambda>(kw, v) x. spec_clause env (eth = TCFLOWER_ETH_PROTO_IPV6) kw v zero_match = Inr x) cls xs \<and>
           k = 0 + length cls \<and> k \<le> 5 \<and>
           ms = take 0 (replicate 5 zero_match) @ xs @ drop k (replicate 5 zero_match) \<and>
           argc c3 = argc c2 - 2 * of_nat (length cls) \<and>
           (\<forall>j < length cls. 2 < argc c2 - 2 * of_nat j) \<and>
           \<not> (2 < argc c3 \<and> k < 5)"
    by (rule loop_success [OF lp]) simp_all
  then obtain cls xs where
    av: "argv c2 = clause_tokens cls @ argv c3" and
    wf: "list_all2 (\<lambda>(kw, v) x. spec_clause env (eth = TCFLOWER_ETH_PROTO_IPV6) kw v zero_match = Inr x) cls xs" and
    k: "k = length cls" and k5: "k \<le> 5" and
    ms: "ms = xs @ replicate (5 - k) zero_match" and
    ac: "argc c3 = argc c2 - 2 * of_nat (length cls)"
    by auto
  from parse_action_success [OF pa] obtain act rest where
    a2: "argc c3 = 2" and a3: "argv c3 = ''action'' # act # rest" and sa: "spec_action act = Some a"
    by blast
  have body: "t # ts = fl @ clause_tokens cls @ ''action'' # act # rest"
    using av a3 by (simp add: c2_def fl_def split: if_splits)
  have T: "toks = ''protocol'' # fam # fl @ clause_tokens cls @ ''action'' # act # rest"
    using toks t0 body by simp
  have len: "length toks = 2 + length fl + 2 * length cls + (2 + length rest)"
    by (subst T) (simp add: length_clause_tokens)
  have c2a: "argc c2 = of_nat (length toks) - 2 - of_nat (length fl)"
    by (simp add: c2_def fl_def)
  have w: "(of_nat (2 + length rest) :: 32 word) = 2"
    using a2 ac c2a unfolding len by (simp add: algebra_simps)
  have last: "length toks < 2 ^ 32 \<longrightarrow> rest = [] \<and> cls \<noteq> []"
  proof
    assume b: "length toks < 2 ^ 32"
    have "unat (of_nat (2 + length rest) :: 32 word) = 2 + length rest"
      using b len by (simp only: unat_of_nat len_of_numeral_defs) simp
    then have "2 + length rest = 2" using w by simp
    then have r0: "rest = []" by simp
    have "length fl \<le> 1" by (simp add: fl_def)
    then have "cls \<noteq> []" using sz len r0 by auto
    with r0 show "rest = [] \<and> cls \<noteq> []" by simp
  qed
  have f1: "fl = [] \<or> fl = [''flower'']" by (simp add: fl_def)
  have f2: "fl = [] \<longrightarrow> toks ! 2 \<noteq> ''flower''" by (simp add: fl_def toks)
  have m: "matches r = xs @ replicate (5 - length cls) zero_match" using r ms k by simp
  have act: "spec_action act = Some (action r)" using sa r by simp
  have ck': "tcflower_check_matchlist (matches r) = Inr ()" using ck r by simp
  show ?thesis
    using T fam f1 f2 wf k k5 m act ca ck' last by blast
qed

subsection \<open>The slots of a parsed list of clauses\<close>

text \<open>
  The tokens of the clause \<open>i\<close>; the matches of accepted clauses are all specified, so
  the list of matches of the array is exactly these; and the validator rejects the array
  exactly when a port keyword occurs and \<open>ip_proto\<close> does not.
\<close>

lemma clause_tokens_nth:
  assumes "i < length cls"
  shows "(clause_tokens cls @ rest) ! (2 * i) = fst (cls ! i)"
    and "(clause_tokens cls @ rest) ! (2 * i + 1) = snd (cls ! i)"
  using assms
proof (induction cls arbitrary: i)
  case Nil
  { case 1 then show ?case by simp }
  { case 2 then show ?case by simp }
next
  case (Cons cl cls)
  { case 1 then show ?case
      using Cons.IH(1) [of "i - 1"] by (cases i; cases cl) (simp_all add: clause_tokens_def) }
  { case 2 then show ?case
      using Cons.IH(2) [of "i - 1"] by (cases i; cases cl) (simp_all add: clause_tokens_def) }
qed

lemma parsed_all_specified:
  assumes "list_all2 (\<lambda>(kw, v) x. spec_clause env v6 kw v zero_match = Inr x) cls xs"
  shows "\<forall>x \<in> set xs. match_type x \<noteq> KEFIR_MATCH_TYPE_UNSPEC"
  using assms
  by (induction cls xs rule: list_all2_induct) (auto dest: spec_clause_kind(1))

lemma upto_unspec_parsed:
  assumes "list_all2 (\<lambda>(kw, v) x. spec_clause env v6 kw v zero_match = Inr x) cls xs"
    and "length cls \<le> 5"
  shows "matches_upto_unspec (xs @ replicate (5 - length cls) zero_match) = xs"
proof -
  have len: "length xs = length cls" using assms(1) by (simp add: list_all2_lengthD)
  have ns: "\<forall>x \<in> set xs. match_type x \<noteq> KEFIR_MATCH_TYPE_UNSPEC"
    using assms(1) by (rule parsed_all_specified)
  have tk: "take 5 (xs @ replicate (5 - length cls) zero_match) = xs @ replicate (5 - length cls) zero_match"
    using len assms(2) by simp
  show ?thesis
  proof (cases "length cls = 5")
    case True
    then show ?thesis
      using ns len by (simp add: matches_upto_unspec_def KEFIR_MAX_MATCH_PER_RULE_def)
  next
    case False
    then obtain k where k: "5 - length cls = Suc k" using assms(2) by (cases "5 - length cls") auto
    show ?thesis
      unfolding matches_upto_unspec_def KEFIR_MAX_MATCH_PER_RULE_def tk
      using ns by (simp add: k takeWhile_append2 zero_match_fields)
  qed
qed

lemma parsed_port_iff:
  assumes "list_all2 (\<lambda>(kw, v) x. spec_clause env v6 kw v zero_match = Inr x) cls xs"
  shows "(\<exists>x \<in> set xs. l4port_label (match_type x)) \<longleftrightarrow>
         (\<exists>(kw, v) \<in> set cls. kw = ''dst_port'' \<or> kw = ''src_port'')"
  using assms
  by (induction cls xs rule: list_all2_induct) (auto simp: spec_clause_kind(3))

lemma parsed_proto_iff:
  assumes "list_all2 (\<lambda>(kw, v) x. spec_clause env v6 kw v zero_match = Inr x) cls xs"
  shows "(\<exists>x \<in> set xs. l4proto_label (match_type x)) \<longleftrightarrow>
         (\<exists>(kw, v) \<in> set cls. kw = ''ip_proto'')"
  using assms
  by (induction cls xs rule: list_all2_induct) (auto simp: spec_clause_kind(2))

lemma check_parsed:
  assumes "list_all2 (\<lambda>(kw, v) x. spec_clause env v6 kw v zero_match = Inr x) cls xs"
    and "length cls \<le> 5"
  shows "tcflower_check_matchlist (xs @ replicate (5 - length cls) zero_match) =
     (if (\<exists>(kw, v) \<in> set cls. kw = ''dst_port'' \<or> kw = ''src_port'') \<and>
         \<not> (\<exists>(kw, v) \<in> set cls. kw = ''ip_proto'')
      then Inl MissingRequiredMatch else Inr ())"
proof -
  have len: "length xs = length cls" using assms(1) by (simp add: list_all2_lengthD)
  have "5 \<le> length (xs @ replicate (5 - length cls) zero_match)" using len assms(2) by simp
  then show ?thesis
    by (simp only: check_matchlist_iff upto_unspec_parsed [OF assms]
          parsed_port_iff [OF assms(1)] parsed_proto_iff [OF assms(1)])
qed

subsection \<open>The slots of a returned rule\<close>

text \<open>
  A returned rule by position: with \<open>n\<close> the number of its matches, the slot \<open>i < n\<close> is
  the match of the clause \<open>i\<close> of the token array, the slots from \<open>n\<close> on are zero, the
  action clause follows the clause \<open>n - 1\<close>, and for a token array whose size fits 32 bits
  there is at least one clause and nothing after the action clause.
\<close>

lemma family_ipv6_iff:
  assumes "spec_family fam = Some eth"
  shows "eth = TCFLOWER_ETH_PROTO_IPV6 \<longleftrightarrow> fam = ''ipv6''"
    and "fam = ''ip'' \<or> fam = ''ipv4'' \<or> fam = ''ipv6''"
  using assms by (auto simp: spec_family_def split: if_splits)

lemma rule_slots:
  assumes ok: "tcflower_parse_rule env toks (length toks) = Inr r"
  shows "\<exists>n. n \<le> 5 \<and> length (matches r) = 5 \<and>
           matches_upto_unspec (matches r) = take n (matches r) \<and>
           (\<forall>i<n. spec_clause env (toks ! 1 = ''ipv6'') (keyword_at toks i) (value_at toks i) zero_match
                     = Inr (matches r ! i)) \<and>
           (\<forall>i. n \<le> i \<and> i < 5 \<longrightarrow> matches r ! i = zero_match) \<and>
           clause_offset toks + 2 * n + 2 \<le> length toks \<and>
           toks ! (clause_offset toks + 2 * n) = ''action'' \<and>
           spec_action (toks ! (clause_offset toks + 2 * n + 1)) = Some (action r) \<and>
           (length toks < 2 ^ 32 \<longrightarrow> 1 \<le> n \<and> length toks = clause_offset toks + 2 * n + 2)"
proof -
  from parse_rule_success [OF ok] obtain fam eth fl cls xs act rest where
    T: "toks = ''protocol'' # fam # fl @ clause_tokens cls @ ''action'' # act # rest" and
    fam: "spec_family fam = Some eth" and fl: "fl = [] \<or> fl = [''flower'']" and
    nf: "fl = [] \<longrightarrow> toks ! 2 \<noteq> ''flower''" and
    wf: "list_all2 (\<lambda>(kw, v) x. spec_clause env (eth = TCFLOWER_ETH_PROTO_IPV6) kw v zero_match = Inr x) cls xs" and
    le: "length cls \<le> 5" and
    m: "matches r = xs @ replicate (5 - length cls) zero_match" and
    act: "spec_action act = Some (action r)" and
    last: "length toks < 2 ^ 32 \<longrightarrow> rest = [] \<and> cls \<noteq> []"
    by blast
  let ?n = "length cls"
  have lx: "length xs = ?n" using wf by (simp add: list_all2_lengthD)
  have t1: "toks ! 1 = fam" by (simp add: T)
  have v6: "(eth = TCFLOWER_ETH_PROTO_IPV6) = (toks ! 1 = ''ipv6'')"
    using family_ipv6_iff(1) [OF fam] t1 by simp
  have off: "clause_offset toks = 2 + length fl"
    using fl nf by (auto simp: clause_offset_def T)
  have T2: "toks = ([''protocol'', fam] @ fl) @ (clause_tokens cls @ ''action'' # act # rest)"
    using T by simp
  have l2: "length ([''protocol'', fam] @ fl) = clause_offset toks" by (simp add: off)
  have at: "\<And>j. toks ! (clause_offset toks + j) = (clause_tokens cls @ ''action'' # act # rest) ! j"
    by (metis T2 l2 nth_append_length_plus)
  have kw: "\<And>i. i < ?n \<Longrightarrow> keyword_at toks i = fst (cls ! i)"
    by (simp add: keyword_at_def at clause_tokens_nth(1))
  have ct2: "\<And>i ys. i < ?n \<Longrightarrow> (clause_tokens cls @ ys) ! Suc (2 * i) = snd (cls ! i)"
    using clause_tokens_nth(2) by simp
  have va: "\<And>i. i < ?n \<Longrightarrow> value_at toks i = snd (cls ! i)"
    using at [of "2 * i + 1" for i] by (simp add: value_at_def ct2 add.assoc)
  have slots: "\<forall>i<?n. spec_clause env (toks ! 1 = ''ipv6'') (keyword_at toks i) (value_at toks i) zero_match
                     = Inr (matches r ! i)"
  proof (intro allI impI)
    fix i assume i: "i < ?n"
    have "(\<lambda>(kw, v) x. spec_clause env (eth = TCFLOWER_ETH_PROTO_IPV6) kw v zero_match = Inr x) (cls ! i) (xs ! i)"
      using wf i by (rule list_all2_nthD)
    then have "spec_clause env (toks ! 1 = ''ipv6'') (fst (cls ! i)) (snd (cls ! i)) zero_match = Inr (xs ! i)"
      by (simp add: v6 case_prod_beta)
    then show "spec_clause env (toks ! 1 = ''ipv6'') (keyword_at toks i) (value_at toks i) zero_match
                     = Inr (matches r ! i)"
      using i lx by (simp add: kw va m nth_append)
  qed
  have zeros: "\<forall>i. ?n \<le> i \<and> i < 5 \<longrightarrow> matches r ! i = zero_match"
    using lx by (auto simp: m nth_append)
  have up: "matches_upto_unspec (matches r) = take ?n (matches r)"
    using upto_unspec_parsed [OF wf le] lx by (simp add: m)
  have lm: "length (matches r) = 5" using lx le by (simp add: m)
  have lt: "length toks = clause_offset toks + 2 * ?n + 2 + length rest"
    by (subst T) (simp add: off length_clause_tokens)
  have a0: "toks ! (clause_offset toks + 2 * ?n) = ''action''"
    by (simp add: at nth_append length_clause_tokens)
  have a1: "toks ! (clause_offset toks + 2 * ?n + 1) = act"
    using at [of "2 * ?n + 1"] by (simp add: nth_append length_clause_tokens add.assoc)
  have lst: "length toks < 2 ^ 32 \<longrightarrow> 1 \<le> ?n \<and> length toks = clause_offset toks + 2 * ?n + 2"
    using last lt by (cases cls) auto
  show ?thesis
    using le lm up slots zeros lt a0 a1 act lst
    by (intro exI [of _ ?n]) simp
qed

lemma rule_match_cases:
  assumes ok: "tcflower_parse_rule env toks (length toks) = Inr r" and m: "m \<in> set (matches r)"
  shows "m = zero_match \<or> (\<exists>kw v. spec_clause env (toks ! 1 = ''ipv6'') kw v zero_match = Inr m)"
proof -
  from rule_slots [OF ok] obtain n where
    lm: "length (matches r) = 5" and
    slots: "\<forall>i<n. spec_clause env (toks ! 1 = ''ipv6'') (keyword_at toks i) (value_at toks i) zero_match
                     = Inr (matches r ! i)" and
    zeros: "\<forall>i. n \<le> i \<and> i < 5 \<longrightarrow> matches r ! i = zero_match"
    by blast
  from m obtain i where i: "i < 5" "m = matches r ! i"
    using lm by (auto simp: in_set_conv_nth)
  show ?thesis
  proof (cases "i < n")
    case True
    then show ?thesis using slots i by blast
  next
    case False
    then show ?thesis using zeros i by simp
  qed
qed

text \<open>The same with the number of matches read off the array.\<close>

lemma upto_unspec_length:
  assumes "tcflower_parse_rule env toks (length toks) = Inr r"
  shows "\<exists>n. n = length (matches_upto_unspec (matches r)) \<and> n \<le> 5 \<and>
           (\<forall>i<n. spec_clause env (toks ! 1 = ''ipv6'') (keyword_at toks i) (value_at toks i) zero_match
                     = Inr (matches r ! i)) \<and>
           (\<forall>i. n \<le> i \<and> i < 5 \<longrightarrow> matches r ! i = zero_match) \<and>
           spec_action (toks ! (clause_offset toks + 2 * n + 1)) = Some (action r) \<and>
           (length toks < 2 ^ 32 \<longrightarrow> 1 \<le> n \<and> length toks = clause_offset toks + 2 * n + 2)"
proof -
  from rule_slots [OF assms] obtain n where
    n: "n \<le> 5" "length (matches r) = 5" "matches_upto_unspec (matches r) = take n (matches r)" and
    rest: "\<forall>i<n. spec_clause env (toks ! 1 = ''ipv6'') (keyword_at toks i) (value_at toks i) zero_match
                     = Inr (matches r ! i)"
      "\<forall>i. n \<le> i \<and> i < 5 \<longrightarrow> matches r ! i = zero_match"
      "spec_action (toks ! (clause_offset toks + 2 * n + 1)) = Some (action r)"
      "length toks < 2 ^ 32 \<longrightarrow> 1 \<le> n \<and> length toks = clause_offset toks + 2 * n + 2"
    by blast
  have "n = length (matches_upto_unspec (matches r))" using n by simp
  then show ?thesis using n(1) rest by blast
qed

subsection \<open>Running the parser on concrete tokens\<close>

text \<open>The definitions that evaluate a run of the parser in the example environment.\<close>

lemma replicate_numeral_unfold: "replicate (numeral k) x = x # replicate (pred_numeral k) x"
  by (simp add: numeral_eq_Suc)

lemmas run_parser =
  tcflower_parse_rule_def cur_def NEXT_ARG_def tcflower_parse_ethproto_def
  KEFIR_MAX_MATCH_PER_RULE_def tcflower_parse_rule_loop.simps
  tcflower_parse_match_def tcflower_parse_match_keyword_def tcflower_parse_ipproto_def
  tcflower_check_matchlist_def tcflower_check_matchlist_scan.simps
  l4proto_label_def l4port_label_def
  tcflower_parse_action_def tcflower_compose_rule_def zero_match_def
  example_env_def decimal_uint_def digit_of_def

lemma argc_le2_lt3: "\<not> 2 < (a::32 word) \<Longrightarrow> a < 3"
  by (simp add: word_less_nat_alt)

lemma argc_lt3_iff: "(a::32 word) < 3 \<longleftrightarrow> \<not> 2 < a"
  by (auto simp: word_less_nat_alt)

subsection \<open>The errors of the stages\<close>

text \<open>
  The errors that each stage of the rule parser can return. The count error of a match
  clause is raised by \<open>tcflower_parse_match\<close> on a cursor with fewer than 2 tokens, and by
  no call that the loop makes.
\<close>

lemma spec_clause_error:
  assumes "spec_clause env v6 kw v m = Inl e"
  shows "e = UnsupportedMatchKeyword kw \<or> e = MalformedValue \<or> e = UnsupportedProtocolNumber v"
  using assms
  by (auto simp: spec_clause_def spec_encode_def
        split: option.splits sum.splits prod.splits spec_encoding.splits if_splits)

lemma parse_match_count_error:
  "argc c < 2 \<Longrightarrow> tcflower_parse_match env c eth m = Inl (BadArgumentCount MatchValue)"
  by (simp add: tcflower_parse_match_def)

lemma argc_gt2_sub2: "2 < (a::32 word) \<Longrightarrow> \<not> a - 2 < 1"
  by simp

lemma parse_match_count_ok:
  assumes "2 < argc c"
  shows "tcflower_parse_match env c eth m \<noteq> Inl (BadArgumentCount MatchValue)"
proof -
  have a: "\<not> argc c < 2" "\<not> argc c - 2 < 1" using assms by simp_all
  show ?thesis
    using a
    by (auto simp: parse_match_refines dest: spec_clause_error
          split: list.splits option.splits sum.splits)
qed

lemma loop_no_count_error:
  "tcflower_parse_rule_loop env eth c ms i \<noteq> Inl (BadArgumentCount MatchValue)"
proof (induction env eth c ms i rule: tcflower_parse_rule_loop.induct)
  case (1 env eth c ms i)
  show ?case
  proof (cases "2 < argc c \<and> i < 5")
    case False
    then show ?thesis by (simp add: loop_exit)
  next
    case True
    then have gt: "2 < argc c" and i: "i < 5" by simp_all
    have k: "2 < argc c \<and> i < KEFIR_MAX_MATCH_PER_RULE"
      using True by (simp add: KEFIR_MAX_MATCH_PER_RULE_def)
    show ?thesis
    proof (cases "tcflower_parse_match env c eth (ms ! i)")
      case (Inl e)
      then have "e \<noteq> BadArgumentCount MatchValue"
        using parse_match_count_ok [OF gt, of env eth "ms ! i"] by auto
      then show ?thesis using Inl gt i by (simp add: loop_step)
    next
      case (Inr p)
      obtain c1 m1 where p: "p = (c1, m1)" by (cases p)
      have "tcflower_parse_rule_loop env eth c1 (ms[i := m1]) (Suc i) \<noteq> Inl (BadArgumentCount MatchValue)"
        using "1.IH" [OF k Inr p [symmetric]] .
      then show ?thesis using Inr p gt i by (simp add: loop_step)
    qed
  qed
qed

lemma parse_action_error:
  assumes "tcflower_parse_action c = Inl e"
  shows "e = BadArgumentCount ActionClause \<or> e = ReadPastEnd \<or> e = MissingActionKeyword \<or>
         e = UnsupportedActionCode"
  using assms
  by (auto simp: tcflower_parse_action_def Let_def split: if_splits option.splits)

lemma after_loop_error:
  assumes "after_loop env res = Inl e"
  shows "res = Inl e \<or> e = MissingRequiredMatch \<or> (\<exists>c3. tcflower_parse_action c3 = Inl e) \<or>
         e = AllocationFailure"
proof (cases res)
  case (Inl e')
  then show ?thesis using assms by (simp add: after_loop_def)
next
  case (Inr p)
  obtain c3 ms k where p: "p = (c3, ms, k)" by (cases p)
  show ?thesis
  proof (cases "tcflower_check_matchlist ms")
    case (Inl e')
    then have "e' = MissingRequiredMatch"
      by (auto simp: tcflower_check_matchlist_def split: prod.splits if_splits)
    then show ?thesis using assms Inr p Inl by (simp add: after_loop_def)
  next
    case ck: (Inr u)
    show ?thesis
    proof (cases "tcflower_parse_action c3")
      case (Inl e')
      then show ?thesis using assms Inr p ck by (auto simp: after_loop_def)
    next
      case pa: (Inr q)
      obtain c4 a where q: "q = (c4, a)" by (cases q)
      show ?thesis
        using assms Inr p ck pa q
        by (auto simp: after_loop_def tcflower_compose_rule_def split: if_splits)
    qed
  qed
qed

lemma after_loop_no_count_error:
  "after_loop env (tcflower_parse_rule_loop env eth c ms i) \<noteq> Inl (BadArgumentCount MatchValue)"
proof
  assume "after_loop env (tcflower_parse_rule_loop env eth c ms i) = Inl (BadArgumentCount MatchValue)"
  from after_loop_error [OF this] show False
    using loop_no_count_error [of env eth c ms i] by (auto dest: parse_action_error)
qed

lemma parse_rule_no_count_error:
  "tcflower_parse_rule env user_rule rule_size \<noteq> Inl (BadArgumentCount MatchValue)"
proof (cases "rule_size < 6")
  case True
  then show ?thesis by (simp add: tcflower_parse_rule_def)
next
  case False
  then have sz: "6 \<le> rule_size" by simp
  show ?thesis
  proof (cases user_rule)
    case Nil
    then show ?thesis using sz by (simp add: tcflower_parse_rule_def cur_def)
  next
    case l1: (Cons t0 r1)
    show ?thesis
    proof (cases "t0 = ''protocol''")
      case False
      then show ?thesis using sz l1 by (simp add: tcflower_parse_rule_def cur_def)
    next
      case t0: True
      show ?thesis
      proof (cases r1)
        case Nil
        then show ?thesis
          using sz l1 t0
          by (simp add: tcflower_parse_rule_def cur_def NEXT_ARG_def tcflower_parse_ethproto_def)
      next
        case l2: (Cons fam r2)
        show ?thesis
        proof (cases r2)
          case Nil
          then show ?thesis
            using sz l1 t0 l2
            by (simp add: tcflower_parse_rule_def cur_def NEXT_ARG_def parse_ethproto_family
                  split: option.splits)
        next
          case l3: (Cons t ts)
          show ?thesis
            using sz after_loop_no_count_error
            by (simp add: l1 t0 l2 l3 parse_rule_head split: option.splits)
        qed
      qed
    qed
  qed
qed

subsection \<open>No read outside the token array\<close>

text \<open>
  When \<open>rule_size\<close> is the number of tokens of the array, the count of the cursor is at
  every step the number of tokens from the pointer on, modulo \<open>2^32\<close>; every read of
  \<^verbatim>\<open>**argv\<close> happens with a count that puts a token under the pointer, so the outcome
  \<open>ReadPastEnd\<close> of the model never occurs.
\<close>

lemma count_gt2_length:
  assumes "argc c = of_nat (length (argv c))" and "2 < argc c"
  shows "3 \<le> length (argv c)"
proof (rule ccontr)
  assume "\<not> 3 \<le> length (argv c)"
  then have "length (argv c) = 0 \<or> length (argv c) = 1 \<or> length (argv c) = 2" by arith
  then show False using assms by auto
qed

lemma count_eq2_length:
  assumes "argc c = of_nat (length (argv c))" and "argc c = 2"
  shows "2 \<le> length (argv c)"
proof (rule ccontr)
  assume "\<not> 2 \<le> length (argv c)"
  then have "length (argv c) = 0 \<or> length (argv c) = 1" by arith
  then show False using assms by auto
qed

lemma parse_match_reads_inside:
  assumes inv: "argc c = of_nat (length (argv c))" and gt: "2 < argc c"
  shows "tcflower_parse_match env c eth m \<noteq> Inl ReadPastEnd"
    and "tcflower_parse_match env c eth m = Inr (c', m') \<Longrightarrow> argc c' = of_nat (length (argv c'))"
proof -
  from count_gt2_length [OF inv gt] obtain kw v rest where av: "argv c = kw # v # rest"
    by (cases "argv c"; cases "tl (argv c)"; cases "tl (tl (argv c))") auto
  show "tcflower_parse_match env c eth m \<noteq> Inl ReadPastEnd"
    by (auto simp: parse_match_refines av dest: spec_clause_error
          split: option.splits sum.splits)
  show "argc c' = of_nat (length (argv c'))"
    if "tcflower_parse_match env c eth m = Inr (c', m')"
  proof -
    from parse_match_success [OF that] av have "c' = \<lparr> argv = rest, argc = argc c - 2 \<rparr>"
      by auto
    then show ?thesis using inv av by simp
  qed
qed

lemma loop_reads_inside:
  assumes "argc c = of_nat (length (argv c))"
  shows "tcflower_parse_rule_loop env eth c ms i \<noteq> Inl ReadPastEnd \<and>
         (\<forall>c' ms' k. tcflower_parse_rule_loop env eth c ms i = Inr (c', ms', k) \<longrightarrow>
            argc c' = of_nat (length (argv c')))"
  using assms
proof (induction env eth c ms i rule: tcflower_parse_rule_loop.induct)
  case (1 env eth c ms i)
  show ?case
  proof (cases "2 < argc c \<and> i < 5")
    case False
    then show ?thesis using "1.prems" by (simp add: loop_exit)
  next
    case True
    then have gt: "2 < argc c" and i: "i < 5" by simp_all
    have k: "2 < argc c \<and> i < KEFIR_MAX_MATCH_PER_RULE"
      using True by (simp add: KEFIR_MAX_MATCH_PER_RULE_def)
    show ?thesis
    proof (cases "tcflower_parse_match env c eth (ms ! i)")
      case (Inl e)
      then have "e \<noteq> ReadPastEnd"
        using parse_match_reads_inside(1) [OF "1.prems" gt, of env eth "ms ! i"] by auto
      then show ?thesis using Inl gt i by (simp add: loop_step)
    next
      case (Inr p)
      obtain c1 m1 where p: "p = (c1, m1)" by (cases p)
      have inv1: "argc c1 = of_nat (length (argv c1))"
        using parse_match_reads_inside(2) [OF "1.prems" gt] Inr p by simp
      show ?thesis
        using "1.IH" [OF k Inr p [symmetric] inv1] Inr p gt i by (simp add: loop_step)
    qed
  qed
qed

lemma parse_action_reads_inside:
  assumes "argc c = of_nat (length (argv c))"
  shows "tcflower_parse_action c \<noteq> Inl ReadPastEnd"
proof (cases "argc c = 2")
  case False
  then show ?thesis by (simp add: parse_action_count)
next
  case True
  from count_eq2_length [OF assms True] obtain t a rest where "argv c = t # a # rest"
    by (cases "argv c"; cases "tl (argv c)") auto
  then show ?thesis
    by (simp add: tcflower_parse_action_def cur_def NEXT_ARG_def Let_def)
qed

lemma after_loop_reads_inside:
  assumes "argc c = of_nat (length (argv c))"
  shows "after_loop env (tcflower_parse_rule_loop env eth c ms i) \<noteq> Inl ReadPastEnd"
proof (cases "tcflower_parse_rule_loop env eth c ms i")
  case (Inl e)
  then show ?thesis using loop_reads_inside [OF assms, of env eth ms i] by (simp add: after_loop_def)
next
  case (Inr p)
  obtain c3 ms' k where p: "p = (c3, ms', k)" by (cases p)
  have inv3: "argc c3 = of_nat (length (argv c3))"
    using loop_reads_inside [OF assms, of env eth ms i] Inr p by simp
  show ?thesis
    using parse_action_reads_inside [OF inv3] Inr p
    by (auto simp: after_loop_def tcflower_check_matchlist_def tcflower_compose_rule_def
          split: sum.splits prod.splits if_splits)
qed

lemma parse_rule_reads_inside:
  "tcflower_parse_rule env toks (length toks) \<noteq> Inl ReadPastEnd"
proof (cases "length toks < 6")
  case True
  then show ?thesis by (simp add: tcflower_parse_rule_def)
next
  case False
  then have sz: "6 \<le> length toks" by simp
  then obtain t0 fam t ts where toks: "toks = t0 # fam # t # ts"
    by (cases toks; cases "tl toks"; cases "tl (tl toks)") auto
  show ?thesis
  proof (cases "t0 = ''protocol''")
    case False
    then show ?thesis using sz toks by (simp add: tcflower_parse_rule_def cur_def)
  next
    case True
    have i1: "argc \<lparr> argv = ts, argc = of_nat (length toks) - 3 \<rparr>
        = of_nat (length (argv \<lparr> argv = ts, argc = of_nat (length toks) - 3 \<rparr>))"
      by (simp add: toks)
    have i2: "argc \<lparr> argv = t # ts, argc = of_nat (length toks) - 2 \<rparr>
        = of_nat (length (argv \<lparr> argv = t # ts, argc = of_nat (length toks) - 2 \<rparr>))"
      by (simp add: toks)
    have "tcflower_parse_rule env (''protocol'' # fam # t # ts) (length toks) \<noteq> Inl ReadPastEnd"
      using after_loop_reads_inside [OF i1] after_loop_reads_inside [OF i2]
      by (simp add: parse_rule_head [OF sz] split: option.splits)
    then show ?thesis using toks True by simp
  qed
qed

section \<open>The claims\<close>

text \<open>
  C1 as stated fails. The token array \<open>protocol ip dst_port 80 action drop\<close> is in the
  grammar, with one clause that the table and the codec accept and with a valid action, and
  the validator of the match list rejects it; and when the allocation of the rule fails,
  a rule of the grammar is rejected with the allocation error.
\<close>

theorem grammar_rule_counterexample:
  "spec_family ''ip'' = Some TCFLOWER_ETH_PROTO_IPV4 \<and>
   spec_clause example_env False ''dst_port'' ''80'' zero_match
     = Inr \<lparr> match_type = KEFIR_MATCH_TYPE_IP_4_L4PORT_DST, comp_operator = OPER_EQUAL,
             value_m = value_u16 80, max_value = replicate 16 0, mask_m = replicate 16 0,
             flags = 0 \<rparr> \<and>
   spec_action ''drop'' = Some ACTION_CODE_DROP \<and>
   tcflower_parse_rule example_env
     [''protocol'', ''ip'', ''dst_port'', ''80'', ''action'', ''drop''] 6
     = Inl MissingRequiredMatch \<and>
   tcflower_parse_rule (example_env\<lparr> calloc_rule := False \<rparr>)
     [''protocol'', ''ip'', ''vlan_id'', ''5'', ''action'', ''drop''] 6
     = Inl AllocationFailure"
  by (simp add: spec_family_def spec_action_def spec_clause_unfold zero_match_def
        example_env_def decimal_uint_def digit_of_def
        tcflower_parse_rule_def cur_def NEXT_ARG_def tcflower_parse_ethproto_def
        KEFIR_MAX_MATCH_PER_RULE_def tcflower_parse_rule_loop.simps
        tcflower_parse_match_def tcflower_parse_match_keyword_def
        tcflower_check_matchlist_def tcflower_check_matchlist_scan.simps
        l4proto_label_def l4port_label_def
        tcflower_parse_action_def tcflower_compose_rule_def)

text \<open>
  C1, amended. For every token array
  \<open>protocol {ip|ipv4|ipv6} [flower] <clause>* action {pass|drop}\<close> with between 1 and 5
  clauses, each accepted by the keyword table and the codec, in which a port clause
  (\<open>dst_port\<close>, \<open>src_port\<close>) comes with an \<open>ip_proto\<close> clause, and when the allocation of
  the rule succeeds, \<open>tcflower_parse_rule\<close> returns a rule whose action is the code of the
  action token and whose slots \<open>0 .. n - 1\<close> are, in token order, the matches of the
  \<open>n\<close> clauses; the other slots are zero.
\<close>

theorem grammar_rule_parses:
  assumes fam: "spec_family fam = Some eth"
    and fl: "fl = [] \<or> fl = [''flower'']"
    and wf: "list_all2 (\<lambda>(kw, v) x. spec_clause env (eth = TCFLOWER_ETH_PROTO_IPV6) kw v zero_match = Inr x) cls xs"
    and ne: "1 \<le> length cls" and le: "length cls \<le> 5"
    and act: "spec_action act = Some a"
    and val: "(\<exists>(kw, v) \<in> set cls. kw = ''dst_port'' \<or> kw = ''src_port'') \<longrightarrow>
              (\<exists>(kw, v) \<in> set cls. kw = ''ip_proto'')"
    and mem: "calloc_rule env"
    and toks: "toks = ''protocol'' # fam # fl @ clause_tokens cls @ [''action'', act]"
  shows "tcflower_parse_rule env toks (length toks) =
           Inr \<lparr> matches = xs @ replicate (5 - length cls) zero_match, action = a \<rparr>"
proof -
  have ne': "cls \<noteq> []" using ne by auto
  have len: "length toks = 2 + length fl + 2 * length cls + 2"
    by (simp add: toks length_clause_tokens)
  have l1: "length fl \<le> 1" using fl by auto
  have sz: "6 \<le> length toks" using len ne by simp
  have "length toks \<le> 15" using len l1 le by simp
  then have sz2: "length toks < 2 ^ 32" by simp
  have "tcflower_parse_rule env toks (length toks) =
      after_loop env (Inr (\<lparr> argv = [''action'', act], argc = of_nat (length [''action'', act]) \<rparr>,
                           xs @ replicate (5 - length cls) zero_match, length cls))"
    by (rule parse_rule_on_grammar [OF fam fl wf ne' le _ _ toks sz sz2]) simp_all
  moreover have "tcflower_check_matchlist (xs @ replicate (5 - length cls) zero_match) = Inr ()"
    using val unfolding check_parsed [OF wf le] by auto
  moreover have "tcflower_parse_action \<lparr> argv = [''action'', act], argc = 2 \<rparr>
      = Inr (\<lparr> argv = [act], argc = 1 \<rparr>, a)"
    by (rule parse_action_on [OF act])
  ultimately show ?thesis
    using mem by (simp add: after_loop_def tcflower_compose_rule_def)
qed

theorem grammar_rule_parses_witness:
  "spec_family ''ip'' = Some TCFLOWER_ETH_PROTO_IPV4 \<and>
   ([] = [] \<or> [] = [''flower'']) \<and>
   list_all2 (\<lambda>(kw, v) x. spec_clause example_env (TCFLOWER_ETH_PROTO_IPV4 = TCFLOWER_ETH_PROTO_IPV6) kw v zero_match = Inr x)
     [(''ip_proto'', ''tcp''), (''dst_port'', ''80'')]
     [\<lparr> match_type = KEFIR_MATCH_TYPE_IP_4_L4PROTO, comp_operator = OPER_EQUAL,
        value_m = value_u8 6, max_value = replicate 16 0, mask_m = replicate 16 0, flags = 0 \<rparr>,
      \<lparr> match_type = KEFIR_MATCH_TYPE_IP_4_L4PORT_DST, comp_operator = OPER_EQUAL,
        value_m = value_u16 80, max_value = replicate 16 0, mask_m = replicate 16 0, flags = 0 \<rparr>] \<and>
   1 \<le> length [(''ip_proto'', ''tcp''), (''dst_port'', ''80'')] \<and>
   length [(''ip_proto'', ''tcp''), (''dst_port'', ''80'')] \<le> 5 \<and>
   spec_action ''drop'' = Some ACTION_CODE_DROP \<and>
   calloc_rule example_env \<and>
   tcflower_parse_rule example_env
     [''protocol'', ''ip'', ''ip_proto'', ''tcp'', ''dst_port'', ''80'', ''action'', ''drop''] 8
   = Inr \<lparr> matches =
       [\<lparr> match_type = KEFIR_MATCH_TYPE_IP_4_L4PROTO, comp_operator = OPER_EQUAL,
          value_m = value_u8 6, max_value = replicate 16 0, mask_m = replicate 16 0, flags = 0 \<rparr>,
        \<lparr> match_type = KEFIR_MATCH_TYPE_IP_4_L4PORT_DST, comp_operator = OPER_EQUAL,
          value_m = value_u16 80, max_value = replicate 16 0, mask_m = replicate 16 0, flags = 0 \<rparr>,
        zero_match, zero_match, zero_match],
       action = ACTION_CODE_DROP \<rparr>"
proof -
  have fam: "spec_family ''ip'' = Some TCFLOWER_ETH_PROTO_IPV4" by (simp add: spec_family_def)
  have fl: "([]::string list) = [] \<or> ([]::string list) = [''flower'']" by simp
  have wf: "list_all2 (\<lambda>(kw, v) x. spec_clause example_env (TCFLOWER_ETH_PROTO_IPV4 = TCFLOWER_ETH_PROTO_IPV6) kw v zero_match = Inr x)
     [(''ip_proto'', ''tcp''), (''dst_port'', ''80'')]
     [\<lparr> match_type = KEFIR_MATCH_TYPE_IP_4_L4PROTO, comp_operator = OPER_EQUAL,
        value_m = value_u8 6, max_value = replicate 16 0, mask_m = replicate 16 0, flags = 0 \<rparr>,
      \<lparr> match_type = KEFIR_MATCH_TYPE_IP_4_L4PORT_DST, comp_operator = OPER_EQUAL,
        value_m = value_u16 80, max_value = replicate 16 0, mask_m = replicate 16 0, flags = 0 \<rparr>]"
    by (simp add: spec_clause_unfold spec_ipproto_alias_def zero_match_def example_env_def
          decimal_uint_def digit_of_def)
  have ne: "1 \<le> length [(''ip_proto'', ''tcp''), (''dst_port'', ''80'')]" by simp
  have le: "length [(''ip_proto'', ''tcp''), (''dst_port'', ''80'')] \<le> 5" by simp
  have act: "spec_action ''drop'' = Some ACTION_CODE_DROP" by (simp add: spec_action_def)
  have val: "(\<exists>(kw, v) \<in> set [(''ip_proto'', ''tcp''), (''dst_port'', ''80'')]. kw = ''dst_port'' \<or> kw = ''src_port'') \<longrightarrow>
              (\<exists>(kw, v) \<in> set [(''ip_proto'', ''tcp''), (''dst_port'', ''80'')]. kw = ''ip_proto'')"
    by simp
  have mem: "calloc_rule example_env" by (simp add: example_env_def)
  have toks: "[''protocol'', ''ip'', ''ip_proto'', ''tcp'', ''dst_port'', ''80'', ''action'', ''drop'']
      = ''protocol'' # ''ip'' # [] @ clause_tokens [(''ip_proto'', ''tcp''), (''dst_port'', ''80'')] @ [''action'', ''drop'']"
    by (simp add: clause_tokens_def)
  show ?thesis
    using grammar_rule_parses [OF fam fl wf ne le act val mem toks] fam wf act mem
    by (simp add: eval_nat_numeral)
qed

text \<open>
  C2 as stated fails. In a token array with six clauses of which only the sixth is a port
  clause, and without \<open>ip_proto\<close>, the loop collects five matches, the validator is
  reached and passes, and the parse fails with the bad-argument-count error of the action
  parser, not with the missing-match error. And in an array of \<open>2^32 + 6\<close> tokens that
  begins \<open>protocol ip vlan_id 5 dst_port 80 action drop\<close> the narrowed count stops the loop
  after the first clause, the validator passes, and the parse fails on the action keyword.
\<close>

theorem port_as_sixth_clause_counterexample:
  "tcflower_parse_rule example_env
     [''protocol'', ''ip'', ''vlan_id'', ''1'', ''vlan_prio'', ''2'', ''cvlan_id'', ''3'',
      ''cvlan_prio'', ''4'', ''ip_ttl'', ''5'', ''dst_port'', ''80'', ''action'', ''drop''] 16
     = Inl (BadArgumentCount ActionClause) \<and>
   length ([''protocol'', ''ip'', ''vlan_id'', ''5'', ''dst_port'', ''80'', ''action'', ''drop'']
           @ replicate 4294967294 ''x'') = 4294967302 \<and>
   tcflower_parse_rule example_env
     ([''protocol'', ''ip'', ''vlan_id'', ''5'', ''dst_port'', ''80'', ''action'', ''drop'']
      @ replicate 4294967294 ''x'') 4294967302
     = Inl MissingActionKeyword"
  by (simp add: run_parser)

text \<open>
  C2, amended. A token array of fewer than \<open>2^32\<close> tokens that reaches the validator of
  the match list (family and optional \<open>flower\<close> parsed, every clause accepted, the loop
  stopped by the tokens that follow or by the fifth match) and in which the clauses that
  the loop has collected, at most five, include \<open>dst_port\<close> or \<open>src_port\<close>, in either
  family, but no \<open>ip_proto\<close> is rejected with the missing-match error, wherever the port
  clause stands among these clauses; and a match array whose matches, read up to the first
  \<open>UNSPEC\<close> slot, include a protocol match passes the validator, with or without a port
  match.
\<close>

theorem port_requires_ipproto:
  assumes fam: "spec_family fam = Some eth"
    and fl: "fl = [] \<or> fl = [''flower'']"
    and wf: "list_all2 (\<lambda>(kw, v) x. spec_clause env (eth = TCFLOWER_ETH_PROTO_IPV6) kw v zero_match = Inr x) cls xs"
    and ne: "1 \<le> length cls" and le: "length cls \<le> 5"
    and rest: "rest \<noteq> []" "length rest \<le> 2 \<or> length cls = 5"
    and toks: "toks = ''protocol'' # fam # fl @ clause_tokens cls @ rest"
    and sz: "6 \<le> length toks" "length toks < 2 ^ 32"
    and port: "\<exists>(kw, v) \<in> set cls. kw = ''dst_port'' \<or> kw = ''src_port''"
    and noproto: "\<forall>(kw, v) \<in> set cls. kw \<noteq> ''ip_proto''"
  shows "tcflower_parse_rule env toks (length toks) = Inl MissingRequiredMatch \<and>
         (\<forall>ms. length ms = 5 \<and>
               (\<exists>m \<in> set (matches_upto_unspec ms). l4proto_label (match_type m)) \<longrightarrow>
               tcflower_check_matchlist ms = Inr ())"
proof
  have ne': "cls \<noteq> []" using ne by auto
  have "tcflower_parse_rule env toks (length toks) =
      after_loop env (Inr (\<lparr> argv = rest, argc = of_nat (length rest) \<rparr>,
                           xs @ replicate (5 - length cls) zero_match, length cls))"
    by (rule parse_rule_on_grammar [OF fam fl wf ne' le rest toks sz])
  moreover have "tcflower_check_matchlist (xs @ replicate (5 - length cls) zero_match)
      = Inl MissingRequiredMatch"
    using port noproto unfolding check_parsed [OF wf le] by auto
  ultimately show "tcflower_parse_rule env toks (length toks) = Inl MissingRequiredMatch"
    by (simp add: after_loop_def)
next
  show "\<forall>ms. length ms = 5 \<and>
               (\<exists>m \<in> set (matches_upto_unspec ms). l4proto_label (match_type m)) \<longrightarrow>
               tcflower_check_matchlist ms = Inr ()"
    by (simp add: check_matchlist_iff)
qed

theorem port_requires_ipproto_witness:
  "spec_family ''ipv6'' = Some TCFLOWER_ETH_PROTO_IPV6 \<and>
   list_all2 (\<lambda>(kw, v) x. spec_clause example_env (TCFLOWER_ETH_PROTO_IPV6 = TCFLOWER_ETH_PROTO_IPV6) kw v zero_match = Inr x)
     [(''vlan_id'', ''5''), (''src_port'', ''80'')]
     [\<lparr> match_type = KEFIR_MATCH_TYPE_SVLAN_ID, comp_operator = OPER_EQUAL,
        value_m = value_u16 5, max_value = replicate 16 0, mask_m = replicate 16 0, flags = 0 \<rparr>,
      \<lparr> match_type = KEFIR_MATCH_TYPE_IP_6_L4PORT_SRC, comp_operator = OPER_EQUAL,
        value_m = value_u16 80, max_value = replicate 16 0, mask_m = replicate 16 0, flags = 0 \<rparr>] \<and>
   tcflower_parse_rule example_env
     [''protocol'', ''ipv6'', ''flower'', ''vlan_id'', ''5'', ''src_port'', ''80'', ''action'', ''drop''] 9
     = Inl MissingRequiredMatch \<and>
   tcflower_check_matchlist
     [zero_match\<lparr> match_type := KEFIR_MATCH_TYPE_IP_4_L4PORT_DST \<rparr>,
      zero_match\<lparr> match_type := KEFIR_MATCH_TYPE_IP_4_L4PROTO \<rparr>,
      zero_match, zero_match, zero_match] = Inr ()"
proof -
  let ?cls = "[(''vlan_id'', ''5''), (''src_port'', ''80'')]"
  let ?xs = "[\<lparr> match_type = KEFIR_MATCH_TYPE_SVLAN_ID, comp_operator = OPER_EQUAL,
        value_m = value_u16 5, max_value = replicate 16 0, mask_m = replicate 16 0, flags = 0 \<rparr>,
      \<lparr> match_type = KEFIR_MATCH_TYPE_IP_6_L4PORT_SRC, comp_operator = OPER_EQUAL,
        value_m = value_u16 80, max_value = replicate 16 0, mask_m = replicate 16 0, flags = 0 \<rparr>]"
  let ?toks = "[''protocol'', ''ipv6'', ''flower'', ''vlan_id'', ''5'', ''src_port'', ''80'', ''action'', ''drop'']"
  let ?ms = "[zero_match\<lparr> match_type := KEFIR_MATCH_TYPE_IP_4_L4PORT_DST \<rparr>,
      zero_match\<lparr> match_type := KEFIR_MATCH_TYPE_IP_4_L4PROTO \<rparr>,
      zero_match, zero_match, zero_match]"
  have fam: "spec_family ''ipv6'' = Some TCFLOWER_ETH_PROTO_IPV6" by (simp add: spec_family_def)
  have fl: "[''flower''] = [] \<or> [''flower''] = [''flower'']" by simp
  have wf: "list_all2 (\<lambda>(kw, v) x. spec_clause example_env (TCFLOWER_ETH_PROTO_IPV6 = TCFLOWER_ETH_PROTO_IPV6) kw v zero_match = Inr x) ?cls ?xs"
    by (simp add: spec_clause_unfold zero_match_def example_env_def decimal_uint_def digit_of_def)
  have toks: "?toks = ''protocol'' # ''ipv6'' # [''flower''] @ clause_tokens ?cls @ [''action'', ''drop'']"
    by (simp add: clause_tokens_def)
  have up: "\<exists>m \<in> set (matches_upto_unspec ?ms). l4proto_label (match_type m)"
    by (simp add: matches_upto_unspec_def KEFIR_MAX_MATCH_PER_RULE_def zero_match_def l4proto_label_def)
  have "tcflower_parse_rule example_env ?toks (length ?toks) = Inl MissingRequiredMatch \<and>
         (\<forall>ms. length ms = 5 \<and>
               (\<exists>m \<in> set (matches_upto_unspec ms). l4proto_label (match_type m)) \<longrightarrow>
               tcflower_check_matchlist ms = Inr ())"
    by (rule port_requires_ipproto [OF fam fl wf _ _ _ _ toks]) simp_all
  then show ?thesis using up fam wf by (simp add: eval_nat_numeral)
qed

text \<open>
  C3. In every state the match loop of \<open>tcflower_parse_rule\<close> exits, returning the state
  as it is, when fewer than 3 tokens remain by the count of the cursor or 5 matches have
  been produced; in every other state it does not exit but parses one more clause and
  goes on. So when the loop returns, one of the two conditions holds, and before each
  clause it read neither held: it stopped at the first state in which one of them holds.
  When it stops with more than 2 tokens left, 5 matches have been produced and the action
  clause that comes next fails with the bad-argument-count error of the action parser.
\<close>

theorem match_loop_exit:
  assumes lp: "tcflower_parse_rule_loop env eth c (replicate 5 zero_match) 0 = Inr (c', ms, k)"
  shows "(argc c' < 3 \<or> k = 5) \<and> k \<le> 5 \<and>
         argc c' = argc c - 2 * of_nat k \<and>
         (\<forall>j<k. 2 < argc c - 2 * of_nat j \<and> j < 5) \<and>
         (2 < argc c' \<longrightarrow> k = 5 \<and>
            tcflower_parse_action c' = Inl (BadArgumentCount ActionClause)) \<and>
         (\<forall>c0 ms0 i0. argc c0 < 3 \<or> 5 \<le> i0 \<longrightarrow>
            tcflower_parse_rule_loop env eth c0 ms0 i0 = Inr (c0, ms0, i0)) \<and>
         (\<forall>c0 ms0 i0. \<not> (argc c0 < 3 \<or> 5 \<le> i0) \<longrightarrow>
            tcflower_parse_rule_loop env eth c0 ms0 i0 =
              (case tcflower_parse_match env c0 eth (ms0 ! i0) of
                 Inl e \<Rightarrow> Inl e
               | Inr (c1, m1) \<Rightarrow> tcflower_parse_rule_loop env eth c1 (ms0[i0 := m1]) (Suc i0)))"
proof -
  have "\<exists>cls xs. argv c = clause_tokens cls @ argv c' \<and>
           list_all2 (\<lambda>(kw, v) x. spec_clause env (eth = TCFLOWER_ETH_PROTO_IPV6) kw v zero_match = Inr x) cls xs \<and>
           k = 0 + length cls \<and> k \<le> 5 \<and>
           ms = take 0 (replicate 5 zero_match) @ xs @ drop k (replicate 5 zero_match) \<and>
           argc c' = argc c - 2 * of_nat (length cls) \<and>
           (\<forall>j < length cls. 2 < argc c - 2 * of_nat j) \<and>
           \<not> (2 < argc c' \<and> k < 5)"
    by (rule loop_success [OF lp]) simp_all
  then obtain cls :: "(string \<times> string) list" where
    k0: "k = 0 + length cls" and k5: "k \<le> 5" and
    ac: "argc c' = argc c - 2 * of_nat (length cls)" and
    before: "\<forall>j < length cls. 2 < argc c - 2 * of_nat j" and
    ex: "\<not> (2 < argc c' \<and> k < 5)"
    by blast
  have k: "k = length cls" using k0 by simp
  have e1: "argc c' < 3 \<or> k = 5" using ex k5 argc_le2_lt3 [of "argc c'"] by auto
  have e2: "2 < argc c' \<longrightarrow> k = 5 \<and> tcflower_parse_action c' = Inl (BadArgumentCount ActionClause)"
    using ex k5 by (auto simp: parse_action_count)
  have stop: "\<forall>c0 ms0 i0. argc c0 < 3 \<or> 5 \<le> i0 \<longrightarrow>
            tcflower_parse_rule_loop env eth c0 ms0 i0 = Inr (c0, ms0, i0)"
  proof (intro allI impI)
    fix c0 :: cursor and ms0 :: "kefir_match list" and i0 :: nat assume "argc c0 < 3 \<or> 5 \<le> i0"
    then have "\<not> (2 < argc c0 \<and> i0 < 5)" by (auto simp: argc_lt3_iff)
    then show "tcflower_parse_rule_loop env eth c0 ms0 i0 = Inr (c0, ms0, i0)"
      by (rule loop_exit)
  qed
  have go: "\<forall>c0 ms0 i0. \<not> (argc c0 < 3 \<or> 5 \<le> i0) \<longrightarrow>
            tcflower_parse_rule_loop env eth c0 ms0 i0 =
              (case tcflower_parse_match env c0 eth (ms0 ! i0) of
                 Inl e \<Rightarrow> Inl e
               | Inr (c1, m1) \<Rightarrow> tcflower_parse_rule_loop env eth c1 (ms0[i0 := m1]) (Suc i0))"
  proof (intro allI impI)
    fix c0 :: cursor and ms0 :: "kefir_match list" and i0 :: nat assume "\<not> (argc c0 < 3 \<or> 5 \<le> i0)"
    then have "2 < argc c0" "i0 < 5" by (auto simp: argc_lt3_iff)
    then show "tcflower_parse_rule_loop env eth c0 ms0 i0 =
              (case tcflower_parse_match env c0 eth (ms0 ! i0) of
                 Inl e \<Rightarrow> Inl e
               | Inr (c1, m1) \<Rightarrow> tcflower_parse_rule_loop env eth c1 (ms0[i0 := m1]) (Suc i0))"
      by (rule loop_step)
  qed
  have a: "\<forall>j<k. 2 < argc c - 2 * of_nat j \<and> j < 5" using before k k5 by auto
  have ac': "argc c' = argc c - 2 * of_nat k" using ac k by simp
  show ?thesis using e1 k5 ac' a e2 stop go by blast
qed

theorem match_loop_exit_witness:
  "(\<exists>ms. tcflower_parse_rule_loop example_env TCFLOWER_ETH_PROTO_IPV4
      \<lparr> argv = [''vlan_id'', ''5'', ''action'', ''drop''], argc = 4 \<rparr> (replicate 5 zero_match) 0
    = Inr (\<lparr> argv = [''action'', ''drop''], argc = 2 \<rparr>, ms, 1)) \<and>
   argc \<lparr> argv = [''action'', ''drop''], argc = 2 \<rparr> < 3 \<and> (1::nat) \<noteq> 5 \<and>
   tcflower_parse_rule_loop example_env TCFLOWER_ETH_PROTO_IPV4
      \<lparr> argv = [''action'', ''drop''], argc = 2 \<rparr> (replicate 5 zero_match) 1
    = Inr (\<lparr> argv = [''action'', ''drop''], argc = 2 \<rparr>, replicate 5 zero_match, 1) \<and>
   (\<exists>ms. tcflower_parse_rule_loop example_env TCFLOWER_ETH_PROTO_IPV4
      \<lparr> argv = [''vlan_id'', ''1'', ''vlan_prio'', ''2'', ''cvlan_id'', ''3'', ''cvlan_prio'', ''4'',
                 ''ip_ttl'', ''5'', ''vlan_ethtype'', ''6'', ''action'', ''drop''], argc = 14 \<rparr>
      (replicate 5 zero_match) 0
    = Inr (\<lparr> argv = [''vlan_ethtype'', ''6'', ''action'', ''drop''], argc = 4 \<rparr>, ms, 5)) \<and>
   tcflower_parse_action \<lparr> argv = [''vlan_ethtype'', ''6'', ''action'', ''drop''], argc = 4 \<rparr>
     = Inl (BadArgumentCount ActionClause) \<and>
   tcflower_parse_rule example_env
     [''protocol'', ''ip'', ''vlan_id'', ''1'', ''vlan_prio'', ''2'', ''cvlan_id'', ''3'',
      ''cvlan_prio'', ''4'', ''ip_ttl'', ''5'', ''vlan_ethtype'', ''6'', ''action'', ''drop''] 16
     = Inl (BadArgumentCount ActionClause)"
proof -
  let ?s = "\<lparr> argv = [''vlan_id'', ''5'', ''action'', ''drop''], argc = 4 \<rparr>"
  let ?s' = "\<lparr> argv = [''action'', ''drop''], argc = 2 \<rparr>"
  let ?c = "\<lparr> argv = [''vlan_id'', ''1'', ''vlan_prio'', ''2'', ''cvlan_id'', ''3'', ''cvlan_prio'', ''4'',
                 ''ip_ttl'', ''5'', ''vlan_ethtype'', ''6'', ''action'', ''drop''], argc = 14 \<rparr>"
  let ?c' = "\<lparr> argv = [''vlan_ethtype'', ''6'', ''action'', ''drop''], argc = 4 \<rparr>"
  obtain ms1 where short: "tcflower_parse_rule_loop example_env TCFLOWER_ETH_PROTO_IPV4 ?s
      (replicate 5 zero_match) 0 = Inr (?s', ms1, 1)"
    by (simp add: run_parser)
  obtain ms where run: "tcflower_parse_rule_loop example_env TCFLOWER_ETH_PROTO_IPV4 ?c
      (replicate 5 zero_match) 0 = Inr (?c', ms, 5)"
    by (simp add: run_parser)
  have lt: "argc ?s' < 3" by simp
  have stop: "tcflower_parse_rule_loop example_env TCFLOWER_ETH_PROTO_IPV4 ?s' (replicate 5 zero_match) 1
      = Inr (?s', replicate 5 zero_match, 1)"
    using match_loop_exit [OF short] lt by blast
  have gt: "2 < argc ?c'" by simp
  have "tcflower_parse_action ?c' = Inl (BadArgumentCount ActionClause)"
    using match_loop_exit [OF run] gt by blast
  moreover have "tcflower_parse_rule example_env
     [''protocol'', ''ip'', ''vlan_id'', ''1'', ''vlan_prio'', ''2'', ''cvlan_id'', ''3'',
      ''cvlan_prio'', ''4'', ''ip_ttl'', ''5'', ''vlan_ethtype'', ''6'', ''action'', ''drop''] 16
     = Inl (BadArgumentCount ActionClause)"
    by (simp add: run_parser)
  ultimately show ?thesis using short run stop lt by auto
qed

text \<open>
  The same at the level of the rule: a token array of the grammar with five accepted
  clauses that pass the validator, followed by more than two tokens (a sixth clause and the
  action clause, say), is rejected with the bad-argument-count error of the action parser.
\<close>

lemma sixth_clause_rejected:
  assumes fam: "spec_family fam = Some eth"
    and fl: "fl = [] \<or> fl = [''flower'']"
    and wf: "list_all2 (\<lambda>(kw, v) x. spec_clause env (eth = TCFLOWER_ETH_PROTO_IPV6) kw v zero_match = Inr x) cls xs"
    and five: "length cls = 5" and more: "2 < length rest"
    and val: "(\<exists>(kw, v) \<in> set cls. kw = ''dst_port'' \<or> kw = ''src_port'') \<longrightarrow>
              (\<exists>(kw, v) \<in> set cls. kw = ''ip_proto'')"
    and toks: "toks = ''protocol'' # fam # fl @ clause_tokens cls @ rest"
    and sz: "length toks < 2 ^ 32"
  shows "tcflower_parse_rule env toks (length toks) = Inl (BadArgumentCount ActionClause)"
proof -
  have ne: "cls \<noteq> []" and le: "length cls \<le> 5" using five by auto
  have r: "rest \<noteq> []" "length rest \<le> 2 \<or> length cls = 5" using more five by auto
  have len: "length toks = 2 + length fl + 2 * length cls + length rest"
    by (simp add: toks length_clause_tokens)
  then have s6: "6 \<le> length toks" using five by simp
  have rl: "length rest < 2 ^ 32" using sz len by simp
  have "unat (of_nat (length rest) :: 32 word) = length rest"
    using rl by (simp only: unat_of_nat len_of_numeral_defs) simp
  then have "unat (of_nat (length rest) :: 32 word) \<noteq> unat (2 :: 32 word)" using more by simp
  then have n2: "(of_nat (length rest) :: 32 word) \<noteq> 2" by auto
  have "tcflower_parse_rule env toks (length toks) =
      after_loop env (Inr (\<lparr> argv = rest, argc = of_nat (length rest) \<rparr>,
                           xs @ replicate (5 - length cls) zero_match, length cls))"
    by (rule parse_rule_on_grammar [OF fam fl wf ne le r toks s6 sz])
  moreover have "tcflower_check_matchlist (xs @ replicate (5 - length cls) zero_match) = Inr ()"
    using val unfolding check_parsed [OF wf le] by auto
  moreover have "tcflower_parse_action \<lparr> argv = rest, argc = of_nat (length rest) \<rparr>
      = Inl (BadArgumentCount ActionClause)"
    using n2 by (simp add: parse_action_count)
  ultimately show ?thesis by (simp add: after_loop_def)
qed

text \<open>
  C4 fails on the code at a token array whose size does not fit 32 bits. The assignment
  \<^verbatim>\<open>argc = rule_size\<close> narrows the \<^verbatim>\<open>size_t\<close> to \<^verbatim>\<open>unsigned int\<close> after the rule-size check
  has passed: for the array \<open>protocol ip action drop\<close> followed by \<open>2^32\<close> more tokens the
  count is 4, the loop is not entered, and the parser returns a rule whose five slots are
  all \<open>UNSPEC\<close>, that is a rule without any match.
\<close>

theorem huge_rule_without_match:
  "length (''protocol'' # ''ip'' # ''action'' # ''drop'' # replicate 4294967296 ''x'') = 4294967300 \<and>
   tcflower_parse_rule example_env
     (''protocol'' # ''ip'' # ''action'' # ''drop'' # replicate 4294967296 ''x'') 4294967300
     = Inr \<lparr> matches = replicate 5 zero_match, action = ACTION_CODE_DROP \<rparr> \<and>
   matches_upto_unspec (replicate 5 zero_match) = []"
proof -
  have "matches_upto_unspec (replicate 5 zero_match) = []"
    by (simp add: matches_upto_unspec_def KEFIR_MAX_MATCH_PER_RULE_def zero_match_def
          replicate_numeral_unfold)
  then show ?thesis by (simp add: run_parser)
qed

text \<open>
  For a token array whose size fits 32 bits a returned rule has between 1 and 5 matches,
  they are the matches of the clauses in token order, and its action is the code of the
  last token.
\<close>

lemma rule_match_count_32bit:
  assumes ok: "tcflower_parse_rule env toks (length toks) = Inr r" and sz: "length toks < 2 ^ 32"
  shows "1 \<le> length (matches_upto_unspec (matches r)) \<and>
         length (matches_upto_unspec (matches r)) \<le> 5 \<and>
         (\<forall>i < length (matches_upto_unspec (matches r)).
            spec_clause env (toks ! 1 = ''ipv6'') (keyword_at toks i) (value_at toks i) zero_match
              = Inr (matches r ! i)) \<and>
         spec_action (last toks) = Some (action r)"
proof -
  from upto_unspec_length [OF ok] obtain n where
    n: "n = length (matches_upto_unspec (matches r))" and n5: "n \<le> 5" and
    slots: "\<forall>i<n. spec_clause env (toks ! 1 = ''ipv6'') (keyword_at toks i) (value_at toks i) zero_match
                     = Inr (matches r ! i)" and
    act: "spec_action (toks ! (clause_offset toks + 2 * n + 1)) = Some (action r)" and
    last: "length toks < 2 ^ 32 \<longrightarrow> 1 \<le> n \<and> length toks = clause_offset toks + 2 * n + 2"
    by blast
  have n1: "1 \<le> n" and len: "length toks = clause_offset toks + 2 * n + 2" using last sz by simp_all
  have "toks \<noteq> []" using len by auto
  then have "last toks = toks ! (clause_offset toks + 2 * n + 1)"
    using len by (simp add: last_conv_nth)
  then show ?thesis using n n5 n1 slots act by simp
qed

text \<open>
  C5. In a returned rule every kind that a keyword resolves by the family belongs to the
  family of the protocol clause: after \<open>ip\<close> or \<open>ipv4\<close> it is an IPv4 kind and no slot
  holds an IPv6 kind, after \<open>ipv6\<close> it is an IPv6 kind and no slot holds an IPv4 kind; no
  rule holds kinds of both families.
\<close>

theorem rule_single_family:
  assumes ok: "tcflower_parse_rule env toks (length toks) = Inr r"
  shows "(toks ! 1 = ''ip'' \<or> toks ! 1 = ''ipv4'' \<or> toks ! 1 = ''ipv6'') \<and>
         (toks ! 1 = ''ip'' \<or> toks ! 1 = ''ipv4'' \<longrightarrow>
            (\<forall>m \<in> set (matches r). \<not> ipv6_kind (match_type m) \<and>
               (match_type m \<in> family_dependent_kinds \<longrightarrow> ipv4_kind (match_type m)))) \<and>
         (toks ! 1 = ''ipv6'' \<longrightarrow>
            (\<forall>m \<in> set (matches r). \<not> ipv4_kind (match_type m) \<and>
               (match_type m \<in> family_dependent_kinds \<longrightarrow> ipv6_kind (match_type m)))) \<and>
         \<not> ((\<exists>m \<in> set (matches r). ipv4_kind (match_type m)) \<and>
            (\<exists>m \<in> set (matches r). ipv6_kind (match_type m)))"
proof -
  from parse_rule_success [OF ok] obtain fam eth rest where
    "toks = ''protocol'' # fam # rest" and fam: "spec_family fam = Some eth"
    by auto
  then have t1: "toks ! 1 = fam" by simp
  have f: "toks ! 1 = ''ip'' \<or> toks ! 1 = ''ipv4'' \<or> toks ! 1 = ''ipv6''"
    using family_ipv6_iff(2) [OF fam] t1 by simp
  have each: "\<And>m. m \<in> set (matches r) \<Longrightarrow>
      (toks ! 1 = ''ipv6'' \<longrightarrow> \<not> ipv4_kind (match_type m)) \<and>
      (toks ! 1 \<noteq> ''ipv6'' \<longrightarrow> \<not> ipv6_kind (match_type m)) \<and>
      (match_type m \<in> family_dependent_kinds \<longrightarrow>
         (if toks ! 1 = ''ipv6'' then ipv6_kind (match_type m) else ipv4_kind (match_type m)))"
  proof -
    fix m assume "m \<in> set (matches r)"
    from rule_match_cases [OF ok this] show "?thesis m"
    proof
      assume "m = zero_match"
      then show ?thesis by (simp add: zero_match_fields unspec_not_family)
    next
      assume "\<exists>kw v. spec_clause env (toks ! 1 = ''ipv6'') kw v zero_match = Inr m"
      then obtain kw v where sc: "spec_clause env (toks ! 1 = ''ipv6'') kw v zero_match = Inr m"
        by blast
      show ?thesis using spec_clause_family [OF sc] by simp
    qed
  qed
  have ne: "''ip'' \<noteq> ''ipv6''" "''ipv4'' \<noteq> ''ipv6''" by simp_all
  have a: "toks ! 1 = ''ip'' \<or> toks ! 1 = ''ipv4'' \<longrightarrow>
            (\<forall>m \<in> set (matches r). \<not> ipv6_kind (match_type m) \<and>
               (match_type m \<in> family_dependent_kinds \<longrightarrow> ipv4_kind (match_type m)))"
    using each ne by auto
  have b: "toks ! 1 = ''ipv6'' \<longrightarrow>
            (\<forall>m \<in> set (matches r). \<not> ipv4_kind (match_type m) \<and>
               (match_type m \<in> family_dependent_kinds \<longrightarrow> ipv6_kind (match_type m)))"
    using each by auto
  have c: "\<not> ((\<exists>m \<in> set (matches r). ipv4_kind (match_type m)) \<and>
            (\<exists>m \<in> set (matches r). ipv6_kind (match_type m)))"
    using each by (cases "toks ! 1 = ''ipv6''") auto
  show ?thesis using f a b c by blast
qed

theorem rule_single_family_witness:
  "tcflower_parse_rule example_env
     [''protocol'', ''ipv6'', ''ip_proto'', ''udp'', ''ip_ttl'', ''64'', ''src_port'', ''53'', ''action'', ''pass'']
     (length [''protocol'', ''ipv6'', ''ip_proto'', ''udp'', ''ip_ttl'', ''64'', ''src_port'', ''53'', ''action'', ''pass''])
   = Inr \<lparr> matches =
       [\<lparr> match_type = KEFIR_MATCH_TYPE_IP_6_L4PROTO, comp_operator = OPER_EQUAL,
          value_m = value_u8 17, max_value = replicate 16 0, mask_m = replicate 16 0, flags = 0 \<rparr>,
        \<lparr> match_type = KEFIR_MATCH_TYPE_IP_6_TTL, comp_operator = OPER_EQUAL,
          value_m = value_u8 64, max_value = replicate 16 0, mask_m = replicate 16 255, flags = 0 \<rparr>,
        \<lparr> match_type = KEFIR_MATCH_TYPE_IP_6_L4PORT_SRC, comp_operator = OPER_EQUAL,
          value_m = value_u16 53, max_value = replicate 16 0, mask_m = replicate 16 0, flags = 0 \<rparr>,
        zero_match, zero_match],
       action = ACTION_CODE_PASS \<rparr> \<and>
   ipv6_kind KEFIR_MATCH_TYPE_IP_6_L4PROTO \<and> ipv6_kind KEFIR_MATCH_TYPE_IP_6_TTL \<and>
   ipv6_kind KEFIR_MATCH_TYPE_IP_6_L4PORT_SRC \<and>
   \<not> ipv4_kind KEFIR_MATCH_TYPE_IP_6_L4PROTO \<and> \<not> ipv4_kind KEFIR_MATCH_TYPE_IP_6_TTL \<and>
   \<not> ipv4_kind KEFIR_MATCH_TYPE_IP_6_L4PORT_SRC"
proof -
  let ?toks = "[''protocol'', ''ipv6'', ''ip_proto'', ''udp'', ''ip_ttl'', ''64'', ''src_port'', ''53'', ''action'', ''pass'']"
  let ?r = "\<lparr> matches =
       [\<lparr> match_type = KEFIR_MATCH_TYPE_IP_6_L4PROTO, comp_operator = OPER_EQUAL,
          value_m = value_u8 17, max_value = replicate 16 0, mask_m = replicate 16 0, flags = 0 \<rparr>,
        \<lparr> match_type = KEFIR_MATCH_TYPE_IP_6_TTL, comp_operator = OPER_EQUAL,
          value_m = value_u8 64, max_value = replicate 16 0, mask_m = replicate 16 255, flags = 0 \<rparr>,
        \<lparr> match_type = KEFIR_MATCH_TYPE_IP_6_L4PORT_SRC, comp_operator = OPER_EQUAL,
          value_m = value_u16 53, max_value = replicate 16 0, mask_m = replicate 16 0, flags = 0 \<rparr>,
        zero_match, zero_match],
       action = ACTION_CODE_PASS \<rparr>"
  have run: "tcflower_parse_rule example_env ?toks (length ?toks) = Inr ?r"
    by (simp add: run_parser replicate_numeral_unfold IPPROTO_UDP_def)
  have fd: "KEFIR_MATCH_TYPE_IP_6_L4PROTO \<in> family_dependent_kinds"
    "KEFIR_MATCH_TYPE_IP_6_TTL \<in> family_dependent_kinds"
    "KEFIR_MATCH_TYPE_IP_6_L4PORT_SRC \<in> family_dependent_kinds"
    by (simp_all add: family_dependent_kinds_def spec_keyword_table_def)
  have t1: "?toks ! 1 = ''ipv6''" by simp
  show ?thesis using rule_single_family [OF run] run fd t1 by simp
qed

text \<open>
  C6. A token array of fewer than 6 tokens is rejected with the bad-argument-count error of
  the rule-size check, and no token is examined: the result does not depend on the array,
  which may even be empty, nor on the environment.
\<close>

theorem short_rule_bad_argument_count:
  assumes "rule_size < 6"
  shows "tcflower_parse_rule env user_rule rule_size = Inl (BadArgumentCount RuleSize)"
  using assms by (simp add: tcflower_parse_rule_def)

theorem short_rule_bad_argument_count_witness:
  "length [''protocol'', ''ip'', ''vlan_id'', ''5'', ''action''] < 6 \<and>
   tcflower_parse_rule example_env [''protocol'', ''ip'', ''vlan_id'', ''5'', ''action'']
     (length [''protocol'', ''ip'', ''vlan_id'', ''5'', ''action''])
     = Inl (BadArgumentCount RuleSize) \<and>
   tcflower_parse_rule example_env [] 5 = Inl (BadArgumentCount RuleSize)"
  using short_rule_bad_argument_count [of "length [''protocol'', ''ip'', ''vlan_id'', ''5'', ''action'']"
          example_env "[''protocol'', ''ip'', ''vlan_id'', ''5'', ''action'']"]
        short_rule_bad_argument_count [of 5 example_env "[]"]
  by simp

text \<open>
  C7 as stated fails: the four tokens \<open>protocol arp action drop\<close> are fewer than 6, so the
  rule-size check rejects them before the family token is read, and the error is not the
  unsupported-protocol one.
\<close>

theorem protocol_arp_four_tokens_counterexample:
  "tcflower_parse_rule example_env [''protocol'', ''arp'', ''action'', ''drop''] 4
     \<noteq> Inl (UnsupportedProtocol ''arp'')"
  by (simp add: tcflower_parse_rule_def)

text \<open>
  C7, amended. Parsing the four tokens \<open>protocol arp action drop\<close> fails with the
  bad-argument-count error of the rule-size check; a token array of at least 6 tokens that
  begins with \<open>protocol arp\<close> fails with the unsupported-protocol error carrying the token
  \<open>arp\<close>.
\<close>

theorem protocol_arp_rejected:
  "tcflower_parse_rule env [''protocol'', ''arp'', ''action'', ''drop''] 4
     = Inl (BadArgumentCount RuleSize) \<and>
   (6 \<le> length (''protocol'' # ''arp'' # rest) \<longrightarrow>
    tcflower_parse_rule env (''protocol'' # ''arp'' # rest) (length (''protocol'' # ''arp'' # rest))
      = Inl (UnsupportedProtocol ''arp''))"
  by (simp add: tcflower_parse_rule_def tcflower_parse_ethproto_def cur_def NEXT_ARG_def)

theorem protocol_arp_rejected_witness:
  "6 \<le> length [''protocol'', ''arp'', ''vlan_id'', ''5'', ''action'', ''drop''] \<and>
   tcflower_parse_rule example_env [''protocol'', ''arp'', ''vlan_id'', ''5'', ''action'', ''drop''] 6
      = Inl (UnsupportedProtocol ''arp'')"
  using protocol_arp_rejected [of example_env "[''vlan_id'', ''5'', ''action'', ''drop'']"]
  by (simp add: eval_nat_numeral)

text \<open>
  C8 as stated fails: the match of the plain unsigned keyword \<open>vlan_id\<close> in a returned rule
  has the mask of the zero initialiser, sixteen zero bytes, not sixteen bytes of ones.
\<close>

theorem rule_masks_counterexample:
  "tcflower_parse_rule example_env [''protocol'', ''ip'', ''vlan_id'', ''5'', ''action'', ''drop''] 6
     = Inr \<lparr> matches =
         [\<lparr> match_type = KEFIR_MATCH_TYPE_SVLAN_ID, comp_operator = OPER_EQUAL,
            value_m = value_u16 5, max_value = replicate 16 0, mask_m = replicate 16 0, flags = 0 \<rparr>,
          zero_match, zero_match, zero_match, zero_match],
         action = ACTION_CODE_DROP \<rparr> \<and>
   replicate 16 (0 :: 8 word) \<noteq> replicate 16 255"
  by (simp add: run_parser replicate_numeral_unfold)

text \<open>
  C8, amended. In a returned rule the mask of a match is the zeroed buffer of the slot,
  sixteen zero bytes, unless the keyword of its clause hands the buffer to the codec
  (\<open>dst_mac\<close>, \<open>src_mac\<close>, \<open>ip_tos\<close>, \<open>ip_ttl\<close>, \<open>dst_ip\<close>, \<open>src_ip\<close>); then it is the
  buffer that the codec leaves for the value token of the clause. The matches of the plain
  unsigned keywords (\<open>vlan_id\<close>, \<open>vlan_prio\<close>, \<open>dst_port\<close>, \<open>src_port\<close> and the others) and
  the unused slots have the all-zero mask.
\<close>

theorem rule_masks:
  assumes ok: "tcflower_parse_rule env toks (length toks) = Inr r" and i: "i < 5"
  shows "(i < length (matches_upto_unspec (matches r)) \<and> keyword_at toks i \<in> mask_keywords \<longrightarrow>
            codec_mask env (toks ! 1 = ''ipv6'') (keyword_at toks i) (value_at toks i)
              = Some (mask_m (matches r ! i))) \<and>
         (i < length (matches_upto_unspec (matches r)) \<and> keyword_at toks i \<notin> mask_keywords \<longrightarrow>
            mask_m (matches r ! i) = replicate 16 0) \<and>
         (length (matches_upto_unspec (matches r)) \<le> i \<longrightarrow>
            mask_m (matches r ! i) = replicate 16 0)"
proof -
  from upto_unspec_length [OF ok] obtain n where
    n: "n = length (matches_upto_unspec (matches r))" and
    slots: "\<forall>i<n. spec_clause env (toks ! 1 = ''ipv6'') (keyword_at toks i) (value_at toks i) zero_match
                     = Inr (matches r ! i)" and
    zeros: "\<forall>i. n \<le> i \<and> i < 5 \<longrightarrow> matches r ! i = zero_match"
    by blast
  show ?thesis
  proof (cases "i < n")
    case True
    then have sc: "spec_clause env (toks ! 1 = ''ipv6'') (keyword_at toks i) (value_at toks i) zero_match
                     = Inr (matches r ! i)"
      using slots by simp
    show ?thesis
      using spec_clause_mask [OF sc zero_match_fields(4)] True n by simp
  next
    case False
    then have "matches r ! i = zero_match" using zeros i by simp
    then show ?thesis using False n by (simp add: zero_match_fields)
  qed
qed

theorem rule_masks_witness:
  "tcflower_parse_rule example_env
     [''protocol'', ''ipv6'', ''flower'', ''ip_ttl'', ''64'', ''vlan_id'', ''5'', ''action'', ''pass'']
     (length [''protocol'', ''ipv6'', ''flower'', ''ip_ttl'', ''64'', ''vlan_id'', ''5'', ''action'', ''pass''])
   = Inr \<lparr> matches =
       [\<lparr> match_type = KEFIR_MATCH_TYPE_IP_6_TTL, comp_operator = OPER_EQUAL,
          value_m = value_u8 64, max_value = replicate 16 0, mask_m = replicate 16 255, flags = 0 \<rparr>,
        \<lparr> match_type = KEFIR_MATCH_TYPE_SVLAN_ID, comp_operator = OPER_EQUAL,
          value_m = value_u16 5, max_value = replicate 16 0, mask_m = replicate 16 0, flags = 0 \<rparr>,
        zero_match, zero_match, zero_match],
       action = ACTION_CODE_PASS \<rparr> \<and>
   codec_mask example_env True ''ip_ttl'' ''64'' = Some (replicate 16 255) \<and>
   ''ip_ttl'' \<in> mask_keywords \<and> ''vlan_id'' \<notin> mask_keywords"
proof -
  let ?toks = "[''protocol'', ''ipv6'', ''flower'', ''ip_ttl'', ''64'', ''vlan_id'', ''5'', ''action'', ''pass'']"
  let ?r = "\<lparr> matches =
       [\<lparr> match_type = KEFIR_MATCH_TYPE_IP_6_TTL, comp_operator = OPER_EQUAL,
          value_m = value_u8 64, max_value = replicate 16 0, mask_m = replicate 16 255, flags = 0 \<rparr>,
        \<lparr> match_type = KEFIR_MATCH_TYPE_SVLAN_ID, comp_operator = OPER_EQUAL,
          value_m = value_u16 5, max_value = replicate 16 0, mask_m = replicate 16 0, flags = 0 \<rparr>,
        zero_match, zero_match, zero_match],
       action = ACTION_CODE_PASS \<rparr>"
  have run: "tcflower_parse_rule example_env ?toks (length ?toks) = Inr ?r"
    by (simp add: run_parser replicate_numeral_unfold)
  have n: "length (matches_upto_unspec (matches ?r)) = 2"
    by (simp add: matches_upto_unspec_def KEFIR_MAX_MATCH_PER_RULE_def zero_match_def)
  have kw: "keyword_at ?toks 0 = ''ip_ttl''" "value_at ?toks 0 = ''64''"
    "keyword_at ?toks 1 = ''vlan_id''" "(?toks ! 1 = ''ipv6'') = True"
    by (simp_all add: keyword_at_def value_at_def clause_offset_def)
  have mk: "''ip_ttl'' \<in> mask_keywords" "''vlan_id'' \<notin> mask_keywords"
    by (simp_all add: mask_keywords_def)
  have "codec_mask example_env True ''ip_ttl'' ''64'' = Some (mask_m (matches ?r ! 0))"
    using rule_masks [OF run, of 0] n kw mk by simp
  moreover have "mask_m (matches ?r ! 1) = replicate 16 0"
    using rule_masks [OF run, of 1] n kw mk by simp
  ultimately show ?thesis using run mk by simp
qed

text \<open>
  C9. The count check at the entry of \<open>tcflower_parse_match\<close> fails on a cursor with fewer
  than 2 tokens. A call on a cursor with more than 2 tokens, which is what the loop
  condition guarantees, passes this check and the one after the clause, so it never fails
  with the count error of the match parser; and neither the match loop nor
  \<open>tcflower_parse_rule\<close>, on any input, returns that error.
\<close>

theorem match_count_errors_unreachable:
  "(argc c < 2 \<longrightarrow> tcflower_parse_match env c eth m = Inl (BadArgumentCount MatchValue)) \<and>
   (2 < argc c \<longrightarrow> tcflower_parse_match env c eth m \<noteq> Inl (BadArgumentCount MatchValue)) \<and>
   tcflower_parse_rule_loop env eth c ms i \<noteq> Inl (BadArgumentCount MatchValue) \<and>
   tcflower_parse_rule env user_rule rule_size \<noteq> Inl (BadArgumentCount MatchValue)"
  using parse_match_count_error parse_match_count_ok loop_no_count_error parse_rule_no_count_error
  by blast

theorem match_count_errors_unreachable_witness:
  "argc \<lparr> argv = [''vlan_id''], argc = 1 \<rparr> < 2 \<and>
   tcflower_parse_match example_env \<lparr> argv = [''vlan_id''], argc = 1 \<rparr>
       TCFLOWER_ETH_PROTO_IPV4 zero_match = Inl (BadArgumentCount MatchValue) \<and>
   2 < argc \<lparr> argv = [''vlan_id'', ''5'', ''action'', ''drop''], argc = 4 \<rparr> \<and>
   tcflower_parse_match example_env \<lparr> argv = [''vlan_id'', ''5'', ''action'', ''drop''], argc = 4 \<rparr>
       TCFLOWER_ETH_PROTO_IPV4 zero_match \<noteq> Inl (BadArgumentCount MatchValue) \<and>
   tcflower_parse_rule example_env [''protocol'', ''ip'', ''vlan_id'', ''5'', ''action'', ''drop''] 6
     \<noteq> Inl (BadArgumentCount MatchValue)"
  using match_count_errors_unreachable
          [of "\<lparr> argv = [''vlan_id''], argc = 1 \<rparr>" example_env TCFLOWER_ETH_PROTO_IPV4
              zero_match "replicate 5 zero_match" 0
              "[''protocol'', ''ip'', ''vlan_id'', ''5'', ''action'', ''drop'']" 6]
        match_count_errors_unreachable
          [of "\<lparr> argv = [''vlan_id'', ''5'', ''action'', ''drop''], argc = 4 \<rparr>" example_env
              TCFLOWER_ETH_PROTO_IPV4 zero_match "replicate 5 zero_match" 0
              "[''protocol'', ''ip'', ''vlan_id'', ''5'', ''action'', ''drop'']" 6]
  by simp

text \<open>
  C10. In a returned rule every slot has the flags 0, an upper bound of sixteen zero bytes
  and the operator equal; \<open>tcflower_parse_match\<close> leaves the flags and the upper bound of
  the slot it fills as they were and sets the operator to equal.
\<close>

theorem rule_frame:
  assumes ok: "tcflower_parse_rule env toks (length toks) = Inr r"
  shows "(\<forall>m \<in> set (matches r). flags m = 0 \<and> max_value m = replicate 16 0 \<and>
            comp_operator m = OPER_EQUAL) \<and>
         (\<forall>c eth m c' m'. tcflower_parse_match env c eth m = Inr (c', m') \<longrightarrow>
            flags m' = flags m \<and> max_value m' = max_value m \<and> comp_operator m' = OPER_EQUAL)"
proof
  show "\<forall>m \<in> set (matches r). flags m = 0 \<and> max_value m = replicate 16 0 \<and>
            comp_operator m = OPER_EQUAL"
  proof
    fix m assume "m \<in> set (matches r)"
    from rule_match_cases [OF ok this]
    show "flags m = 0 \<and> max_value m = replicate 16 0 \<and> comp_operator m = OPER_EQUAL"
    proof
      assume "m = zero_match"
      then show ?thesis by (simp add: zero_match_fields)
    next
      assume "\<exists>kw v. spec_clause env (toks ! 1 = ''ipv6'') kw v zero_match = Inr m"
      then obtain kw v where sc: "spec_clause env (toks ! 1 = ''ipv6'') kw v zero_match = Inr m"
        by blast
      show ?thesis using spec_clause_frame [OF sc] by (simp add: zero_match_fields)
    qed
  qed
next
  show "\<forall>c eth m c' m'. tcflower_parse_match env c eth m = Inr (c', m') \<longrightarrow>
            flags m' = flags m \<and> max_value m' = max_value m \<and> comp_operator m' = OPER_EQUAL"
  proof (intro allI impI)
    fix c eth m c' m'
    assume pm: "tcflower_parse_match env c eth m = Inr (c', m')"
    from parse_match_success [OF pm] obtain kw v where
      "spec_clause env (eth = TCFLOWER_ETH_PROTO_IPV6) kw v m = Inr m'" by blast
    then show "flags m' = flags m \<and> max_value m' = max_value m \<and> comp_operator m' = OPER_EQUAL"
      by (rule spec_clause_frame)
  qed
qed

theorem rule_frame_witness:
  "tcflower_parse_rule example_env
     [''protocol'', ''ipv6'', ''flower'', ''ip_ttl'', ''64'', ''vlan_id'', ''5'', ''action'', ''pass'']
     (length [''protocol'', ''ipv6'', ''flower'', ''ip_ttl'', ''64'', ''vlan_id'', ''5'', ''action'', ''pass''])
   = Inr \<lparr> matches =
       [\<lparr> match_type = KEFIR_MATCH_TYPE_IP_6_TTL, comp_operator = OPER_EQUAL,
          value_m = value_u8 64, max_value = replicate 16 0, mask_m = replicate 16 255, flags = 0 \<rparr>,
        \<lparr> match_type = KEFIR_MATCH_TYPE_SVLAN_ID, comp_operator = OPER_EQUAL,
          value_m = value_u16 5, max_value = replicate 16 0, mask_m = replicate 16 0, flags = 0 \<rparr>,
        zero_match, zero_match, zero_match],
       action = ACTION_CODE_PASS \<rparr> \<and>
   tcflower_parse_match example_env \<lparr> argv = [''ip_ttl'', ''64'', ''action'', ''pass''], argc = 4 \<rparr>
       TCFLOWER_ETH_PROTO_IPV4 (zero_match\<lparr> flags := 3, max_value := replicate 16 7 \<rparr>)
     = Inr (\<lparr> argv = [''action'', ''pass''], argc = 2 \<rparr>,
            \<lparr> match_type = KEFIR_MATCH_TYPE_IP_4_TTL, comp_operator = OPER_EQUAL,
              value_m = value_u8 64, max_value = replicate 16 7, mask_m = replicate 16 255,
              flags = 3 \<rparr>)"
proof -
  let ?toks = "[''protocol'', ''ipv6'', ''flower'', ''ip_ttl'', ''64'', ''vlan_id'', ''5'', ''action'', ''pass'']"
  let ?r = "\<lparr> matches =
       [\<lparr> match_type = KEFIR_MATCH_TYPE_IP_6_TTL, comp_operator = OPER_EQUAL,
          value_m = value_u8 64, max_value = replicate 16 0, mask_m = replicate 16 255, flags = 0 \<rparr>,
        \<lparr> match_type = KEFIR_MATCH_TYPE_SVLAN_ID, comp_operator = OPER_EQUAL,
          value_m = value_u16 5, max_value = replicate 16 0, mask_m = replicate 16 0, flags = 0 \<rparr>,
        zero_match, zero_match, zero_match],
       action = ACTION_CODE_PASS \<rparr>"
  have run: "tcflower_parse_rule example_env ?toks (length ?toks) = Inr ?r"
    by (simp add: run_parser replicate_numeral_unfold)
  have pm: "tcflower_parse_match example_env \<lparr> argv = [''ip_ttl'', ''64'', ''action'', ''pass''], argc = 4 \<rparr>
       TCFLOWER_ETH_PROTO_IPV4 (zero_match\<lparr> flags := 3, max_value := replicate 16 7 \<rparr>)
     = Inr (\<lparr> argv = [''action'', ''pass''], argc = 2 \<rparr>,
            \<lparr> match_type = KEFIR_MATCH_TYPE_IP_4_TTL, comp_operator = OPER_EQUAL,
              value_m = value_u8 64, max_value = replicate 16 7, mask_m = replicate 16 255,
              flags = 3 \<rparr>)"
    by (simp add: run_parser replicate_numeral_unfold)
  show ?thesis using rule_frame [OF run] run pm by simp
qed

end
